theory Spec2Isabelle
  imports Complex_Main
begin

section \<open>Data model (src/types.ts)\<close>

text \<open>
  In the solver a JavaScript \<open>number\<close> is modelled as a \<open>real\<close>: \<open>Math.exp\<close> is
  \<open>exp\<close>, \<open>Math.sqrt\<close> is \<open>sqrt\<close>, a decimal literal is its decimal value and the
  arithmetic is exact. The loop variable of the sweep is modelled as an IEEE-754 double,
  since the number of passes depends on its rounding. Overflow to infinity and NaN are
  not values of the model; what exceeds \<open>Number.MAX_VALUE\<close> is what overflows in the code.
\<close>

datatype DopingLevel = LIGHT | MODERATE | HEAVY

datatype SimulationMode = IDEAL | NON_IDEAL

record DiodeParams =
  Is :: real
  n :: real
  Vbi :: real
  Rs :: real
  breakdownVoltage :: real

text \<open>
  The points pushed by \<open>generateCurveData\<close> are object literals \<open>{v: ..., i: ...}\<close>;
  the two fields are named \<open>point_v\<close> and \<open>point_i\<close> here.
\<close>

record CurvePoint =
  point_v :: real
  point_i :: real

text \<open>The invariants the specification puts on a parameter set.\<close>

definition valid_params :: "DiodeParams \<Rightarrow> bool" where
  "valid_params params \<longleftrightarrow>
     0 < Is params \<and> 1 \<le> n params \<and> 0 < Vbi params \<and> 0 \<le> Rs params
     \<and> breakdownVoltage params < 0"

text \<open>The part of these invariants that the forward solve reads.\<close>

definition solver_params :: "DiodeParams \<Rightarrow> bool" where
  "solver_params params \<longleftrightarrow> 0 < Is params \<and> 1 \<le> n params \<and> 0 \<le> Rs params"

section \<open>The physics solver (src/utils/physics.ts)\<close>

definition THERMAL_VOLTAGE_VT :: real where
  "THERMAL_VOLTAGE_VT = 0.026"

definition getDiodeParams :: "DopingLevel \<Rightarrow> DiodeParams" where
  "getDiodeParams doping =
     (case doping of
        LIGHT \<Rightarrow> \<lparr>Is = 1 / 10 ^ 12, n = 1.1, Vbi = 0.60, Rs = 25, breakdownVoltage = - 50\<rparr>
      | HEAVY \<Rightarrow> \<lparr>Is = 1 / 10 ^ 9, n = 1.5, Vbi = 0.85, Rs = 2, breakdownVoltage = - 4.5\<rparr>
      | _ \<Rightarrow> \<lparr>Is = 1 / 10 ^ 11, n = 1.2, Vbi = 0.70, Rs = 10, breakdownVoltage = - 20\<rparr>)"

text \<open>
  The Newton-Raphson loop of the forward non-ideal branch,
  \<open>for (let i = 0; i < 10; i++) { ... }\<close>, with the loop state \<open>(i, Vd)\<close>.
  The \<open>break\<close> leaves the loop with \<open>Vd = nextVd\<close>.
\<close>

function newton_loop :: "real \<Rightarrow> DiodeParams \<Rightarrow> nat \<Rightarrow> real \<Rightarrow> real" where
  "newton_loop voltage params i Vd =
     (if i < 10 then
        (let expTerm = exp (Vd / (n params * THERMAL_VOLTAGE_VT));
             f = Vd + Is params * Rs params * (expTerm - 1) - voltage;
             df = 1 + Is params * Rs params * expTerm / (n params * THERMAL_VOLTAGE_VT);
             nextVd = Vd - f / df
         in if \<bar>nextVd - Vd\<bar> < 1 / 10 ^ 5 then nextVd
            else newton_loop voltage params (Suc i) nextVd)
      else Vd)"
  by pat_completeness auto
termination
  by (relation "measure (\<lambda>(voltage, params, i, Vd). 10 - i)") auto

declare newton_loop.simps [simp del]

text \<open>
  The number of times the loop body has run when the loop is left: \<open>Suc i\<close> at the
  \<open>break\<close> of iteration \<open>i\<close>, 10 when the bound stops the loop.
\<close>

function newton_iterations :: "real \<Rightarrow> DiodeParams \<Rightarrow> nat \<Rightarrow> real \<Rightarrow> nat" where
  "newton_iterations voltage params i Vd =
     (if i < 10 then
        (let expTerm = exp (Vd / (n params * THERMAL_VOLTAGE_VT));
             f = Vd + Is params * Rs params * (expTerm - 1) - voltage;
             df = 1 + Is params * Rs params * expTerm / (n params * THERMAL_VOLTAGE_VT);
             nextVd = Vd - f / df
         in if \<bar>nextVd - Vd\<bar> < 1 / 10 ^ 5 then Suc i
            else newton_iterations voltage params (Suc i) nextVd)
      else i)"
  by pat_completeness auto
termination
  by (relation "measure (\<lambda>(voltage, params, i, Vd). 10 - i)") auto

declare newton_iterations.simps [simp del]

definition calculateCurrent :: "real \<Rightarrow> DiodeParams \<Rightarrow> SimulationMode \<Rightarrow> real" where
  "calculateCurrent voltage params mode =
     (if mode = IDEAL then
        (if voltage \<ge> 0 then
           Is params * (exp (voltage / (n params * THERMAL_VOLTAGE_VT)) - 1)
         else - Is params)
      else if voltage \<ge> 0 then
        (let Vd = newton_loop voltage params 0 voltage;
             Vd = (if Vd > voltage then voltage else Vd)
         in Is params * (exp (Vd / (n params * THERMAL_VOLTAGE_VT)) - 1))
      else
        (let leakageCurrent = voltage * (1 / 10 ^ 8);
             shockleyCurrent =
               Is params * (exp (voltage / (n params * THERMAL_VOLTAGE_VT)) - 1);
             breakdownCurrent =
               (if voltage < breakdownVoltage params then
                  (let diff = breakdownVoltage params - voltage
                   in - Is params * (exp (diff * 2) - 1) * 1000)
                else 0)
         in shockleyCurrent + leakageCurrent + breakdownCurrent))"

definition calculateDepletionFactor :: "real \<Rightarrow> real \<Rightarrow> real" where
  "calculateDepletionFactor voltage Vbi' =
     (let V_effective = min voltage (Vbi' - 0.05);
          w = sqrt (Vbi' - V_effective) / sqrt Vbi'
      in max 0.1 (min 3.0 w))"

text \<open>
  \<open>parseFloat(v.toFixed(2))\<close>. \<open>Number.prototype.toFixed\<close> (ECMAScript) takes the
  sign off, picks the integer \<open>k\<close> with \<open>k / 100\<close> nearest to the magnitude (the larger
  one of two equally near), and prints it with two decimals; from \<open>10 ^ 21\<close> on it
  prints the number itself. \<open>parseFloat\<close> reads the decimal back; the result is
  taken at its decimal value.
\<close>

definition toFixed2 :: "real \<Rightarrow> real" where
  "toFixed2 x =
     (if \<bar>x\<bar> \<ge> 10 ^ 21 then x
      else sgn x * (of_int \<lfloor>\<bar>x\<bar> * 100 + 1 / 2\<rfloor> / 100))"

text \<open>
  Double arithmetic for the loop variable of the sweep: a real is rounded to the nearest
  number with a 53-bit significand, a tie to the one with an even significand; below
  \<open>2 ^ (- 1022)\<close> the spacing stays that of the smallest normal binade. The sum of two
  doubles is the rounded exact sum.
\<close>

definition round_half_even :: "real \<Rightarrow> int" where
  "round_half_even x =
     (let f = \<lfloor>x\<rfloor>; r = x - of_int f
      in if r < 1 / 2 then f else if r > 1 / 2 then f + 1 else if even f then f else f + 1)"

definition double_round :: "real \<Rightarrow> real" where
  "double_round x =
     (if x = 0 then 0
      else (let e = max \<lfloor>log 2 \<bar>x\<bar>\<rfloor> (- 1022) - 52
            in of_int (round_half_even (x / 2 powi e)) * 2 powi e))"

definition double_add :: "real \<Rightarrow> real \<Rightarrow> real" where
  "double_add x y = double_round (x + y)"

text \<open>\<open>Number.MAX_VALUE\<close>, the largest double.\<close>

definition MAX_VALUE :: real where
  "MAX_VALUE = (2 - 1 / 2 ^ 52) * 2 ^ 1023"

text \<open>
  The sweep \<open>for (let v = -5.0; v <= 5.0; v += 0.1) { ... }\<close> with the loop state
  \<open>(v, idealPoints, nonIdealPoints)\<close>; \<open>push\<close> appends at the end. The bounds
  \<open>-5.0\<close> and \<open>5.0\<close> are doubles; the step is the double nearest to \<open>0.1\<close>, and
  \<open>v += 0.1\<close> is a double addition. From a very negative \<open>v\<close> the addition returns
  \<open>v\<close> itself and the loop does not end, so the result is an option.
\<close>

partial_function (option) sweep ::
  "DiodeParams \<Rightarrow> real \<Rightarrow> CurvePoint list \<Rightarrow> CurvePoint list
     \<Rightarrow> (CurvePoint list \<times> CurvePoint list) option" where
  "sweep params v idealPoints nonIdealPoints =
     (if v \<le> 5.0 then
        (let vFixed = toFixed2 v
         in sweep params (double_add v (double_round 0.1))
              (idealPoints @
                 [\<lparr>point_v = vFixed,
                   point_i = calculateCurrent vFixed params IDEAL * 1000\<rparr>])
              (nonIdealPoints @
                 [\<lparr>point_v = vFixed,
                   point_i = calculateCurrent vFixed params NON_IDEAL * 1000\<rparr>]))
      else Some (idealPoints, nonIdealPoints))"

definition generateCurveData ::
  "DiodeParams \<Rightarrow> (CurvePoint list \<times> CurvePoint list) option" where
  "generateCurveData params = sweep params (- 5.0) [] []"

text \<open>The value of the loop variable at the start of pass \<open>k\<close> of the sweep.\<close>

definition loop_value :: "nat \<Rightarrow> real" where
  "loop_value k = ((\<lambda>v. double_add v (double_round 0.1)) ^^ k) (- 5.0)"

text \<open>The object literal pushed for one sample of the sweep.\<close>

definition mk_point :: "DiodeParams \<Rightarrow> SimulationMode \<Rightarrow> real \<Rightarrow> CurvePoint" where
  "mk_point p mode x = \<lparr>point_v = x, point_i = calculateCurrent x p mode * 1000\<rparr>"

section \<open>The forward solve as the specification words it\<close>

text \<open>
  Specification, section 4.2: Newton-Raphson on
  \<open>f(Vd) = Vd + Is*Rs*(exp(Vd/(n*Vt)) - 1) - voltage\<close> with
  \<open>f'(Vd) = 1 + Is*Rs*exp(Vd/(n*Vt))/(n*Vt)\<close> and \<open>Vt = 0.026\<close>, initial guess
  \<open>Vd0 = voltage\<close>, at most 10 iterations, stopping at the first \<open>k\<close> with
  \<open>|Vd_{k+1} - Vd_k| < 1e-5\<close>; without convergence the tenth iterate is the result.
  These definitions follow those words, not the loop of the source.
\<close>

definition spec_newton_f :: "DiodeParams \<Rightarrow> real \<Rightarrow> real \<Rightarrow> real" where
  "spec_newton_f p voltage Vd =
     Vd + Is p * Rs p * (exp (Vd / (n p * 0.026)) - 1) - voltage"

definition spec_newton_df :: "DiodeParams \<Rightarrow> real \<Rightarrow> real" where
  "spec_newton_df p Vd = 1 + Is p * Rs p * exp (Vd / (n p * 0.026)) / (n p * 0.026)"

definition spec_newton_step :: "DiodeParams \<Rightarrow> real \<Rightarrow> real \<Rightarrow> real" where
  "spec_newton_step p voltage Vd = Vd - spec_newton_f p voltage Vd / spec_newton_df p Vd"

definition spec_newton_iterate :: "DiodeParams \<Rightarrow> real \<Rightarrow> nat \<Rightarrow> real" where
  "spec_newton_iterate p voltage k = (spec_newton_step p voltage ^^ k) voltage"

definition spec_newton_solve :: "DiodeParams \<Rightarrow> real \<Rightarrow> real" where
  "spec_newton_solve p voltage =
     (case find (\<lambda>k. \<bar>spec_newton_iterate p voltage (Suc k) - spec_newton_iterate p voltage k\<bar>
                        < 1 / 10 ^ 5) [0..<10] of
        Some k \<Rightarrow> spec_newton_iterate p voltage (Suc k)
      | None \<Rightarrow> spec_newton_iterate p voltage 10)"

text \<open>
  A valid parameter set with a large series resistance, used to show the jump of the
  forward solve where the early exit of the loop starts to miss.
\<close>

definition jump_params :: DiodeParams where
  "jump_params = \<lparr>Is = 1, n = 1, Vbi = 0.7, Rs = 100, breakdownVoltage = - 20\<rparr>"

section \<open>Ideal mode\<close>

text \<open>
  C3. For valid parameters, the ideal-mode current is
  \<open>Is * (exp (voltage / (n * 0.026)) - 1)\<close> at every voltage from 0 upwards and
  exactly \<open>- Is\<close> at every negative voltage.
\<close>

theorem ideal_mode_current:
  assumes "valid_params p"
  shows "(voltage \<ge> 0 \<longrightarrow>
            calculateCurrent voltage p IDEAL = Is p * (exp (voltage / (n p * 0.026)) - 1))
         \<and> (voltage < 0 \<longrightarrow> calculateCurrent voltage p IDEAL = - Is p)"
  by (simp add: calculateCurrent_def THERMAL_VOLTAGE_VT_def)

lemma valid_params_presets:
  "valid_params (getDiodeParams doping)"
  by (cases doping) (simp_all add: valid_params_def getDiodeParams_def)

theorem ideal_mode_current_witness:
  "valid_params (getDiodeParams MODERATE)
   \<and> calculateCurrent 0 (getDiodeParams MODERATE) IDEAL = 0
   \<and> calculateCurrent (- 1) (getDiodeParams MODERATE) IDEAL = - (1 / 10 ^ 11)"
  using ideal_mode_current [of "getDiodeParams MODERATE" 0]
        ideal_mode_current [of "getDiodeParams MODERATE" "- 1"]
  by (simp add: valid_params_def getDiodeParams_def)

section \<open>Non-ideal mode, reverse bias\<close>

text \<open>
  C4. For valid parameters and a negative voltage, the non-ideal current is the sum of
  the leakage term \<open>voltage * 1e-8\<close>, the Shockley term
  \<open>Is * (exp (voltage / (n * 0.026)) - 1)\<close> and the breakdown term, which is 0 while
  \<open>voltage \<ge> breakdownVoltage\<close> and
  \<open>- Is * (exp ((breakdownVoltage - voltage) * 2) - 1) * 1000\<close> below it.
\<close>

theorem reverse_non_ideal_current:
  assumes "valid_params p" and "voltage < 0"
  shows "calculateCurrent voltage p NON_IDEAL =
           voltage * (1 / 10 ^ 8)
           + Is p * (exp (voltage / (n p * 0.026)) - 1)
           + (if voltage \<ge> breakdownVoltage p then 0
              else - Is p * (exp ((breakdownVoltage p - voltage) * 2) - 1) * 1000)"
  using assms by (simp add: calculateCurrent_def THERMAL_VOLTAGE_VT_def Let_def)

theorem reverse_non_ideal_current_witness:
  "valid_params (getDiodeParams HEAVY) \<and> (- 5 :: real) < 0
   \<and> calculateCurrent (- 5) (getDiodeParams HEAVY) NON_IDEAL =
        - 5 * (1 / 10 ^ 8) + 1 / 10 ^ 9 * (exp (- 5 / (1.5 * 0.026)) - 1)
        + - (1 / 10 ^ 9) * (exp 1 - 1) * 1000
   \<and> calculateCurrent (- 4) (getDiodeParams HEAVY) NON_IDEAL =
        - 4 * (1 / 10 ^ 8) + 1 / 10 ^ 9 * (exp (- 4 / (1.5 * 0.026)) - 1)"
  using reverse_non_ideal_current [of "getDiodeParams HEAVY" "- 5"]
        reverse_non_ideal_current [of "getDiodeParams HEAVY" "- 4"]
  by (simp add: valid_params_def getDiodeParams_def)

section \<open>Zero bias\<close>

text \<open>
  C5. For valid parameters and either mode, the current at voltage 0 is exactly 0: the
  Newton-Raphson loop leaves \<open>Vd = 0\<close> untouched.
\<close>

theorem zero_bias_current:
  assumes "valid_params p"
  shows "calculateCurrent 0 p mode = 0"
  using assms
  by (simp add: calculateCurrent_def newton_loop.simps [of 0 p 0 0] Let_def)

theorem zero_bias_current_witness:
  "valid_params (getDiodeParams LIGHT)
   \<and> calculateCurrent 0 (getDiodeParams LIGHT) IDEAL = 0
   \<and> calculateCurrent 0 (getDiodeParams LIGHT) NON_IDEAL = 0"
  using zero_bias_current [of "getDiodeParams LIGHT" IDEAL]
        zero_bias_current [of "getDiodeParams LIGHT" NON_IDEAL]
  by (simp add: valid_params_def getDiodeParams_def)

section \<open>Depletion width\<close>

text \<open>
  C6. For a positive built-in potential, the depletion factor lies in \<open>[0.1, 3.0]\<close> and
  does not increase when the voltage increases.
\<close>

theorem depletion_factor_range_mono:
  assumes "0 < Vbi'"
  shows "0.1 \<le> calculateDepletionFactor voltage Vbi'
         \<and> calculateDepletionFactor voltage Vbi' \<le> 3.0
         \<and> (v1 \<le> v2 \<longrightarrow>
              calculateDepletionFactor v2 Vbi' \<le> calculateDepletionFactor v1 Vbi')"
proof (intro conjI impI)
  show "0.1 \<le> calculateDepletionFactor voltage Vbi'"
    by (simp add: calculateDepletionFactor_def Let_def)
  show "calculateDepletionFactor voltage Vbi' \<le> 3.0"
    by (simp add: calculateDepletionFactor_def Let_def)
next
  assume le: "v1 \<le> v2"
  have "min v1 (Vbi' - 0.05) \<le> min v2 (Vbi' - 0.05)"
    using le by (intro min.mono) simp_all
  then have "sqrt (Vbi' - min v2 (Vbi' - 0.05)) \<le> sqrt (Vbi' - min v1 (Vbi' - 0.05))"
    by simp
  moreover have "0 \<le> sqrt Vbi'"
    using assms by simp
  ultimately have "sqrt (Vbi' - min v2 (Vbi' - 0.05)) / sqrt Vbi'
        \<le> sqrt (Vbi' - min v1 (Vbi' - 0.05)) / sqrt Vbi'"
    by (rule divide_right_mono)
  then have "max 0.1 (min 3.0 (sqrt (Vbi' - min v2 (Vbi' - 0.05)) / sqrt Vbi'))
        \<le> max 0.1 (min 3.0 (sqrt (Vbi' - min v1 (Vbi' - 0.05)) / sqrt Vbi'))"
    by (intro max.mono min.mono order_refl)
  then show "calculateDepletionFactor v2 Vbi' \<le> calculateDepletionFactor v1 Vbi'"
    by (simp only: calculateDepletionFactor_def Let_def)
qed

theorem depletion_factor_range_mono_witness:
  "(0 :: real) < 0.7 \<and> (0 :: real) \<le> 1
   \<and> calculateDepletionFactor 0 0.7 = 1
   \<and> calculateDepletionFactor 1 0.7 \<le> calculateDepletionFactor 0 0.7"
  using depletion_factor_range_mono [of "0.7" 0 0 1]
  by (simp add: calculateDepletionFactor_def Let_def)

section \<open>The curve sampler\<close>

subsection \<open>The loop variable, in double arithmetic\<close>

lemma double_round_binade:
  assumes "2 powi k \<le> \<bar>x\<bar>" and "\<bar>x\<bar> < 2 powi (k + 1)" and "- 1022 \<le> k"
  shows "double_round x = of_int (round_half_even (x / 2 powi (k - 52))) * 2 powi (k - 52)"
proof -
  have pos: "0 < \<bar>x\<bar>"
    using assms(1) by (rule less_le_trans [rotated]) simp
  have "2 powr real_of_int k = (2 :: real) powi k"
    and "2 powr real_of_int (k + 1) = (2 :: real) powi (k + 1)"
    by (rule powr_real_of_int'; simp)+
  then have "2 powr real_of_int k \<le> \<bar>x\<bar>" and "\<bar>x\<bar> < 2 powr real_of_int (k + 1)"
    using assms(1,2) by (simp_all only:)
  then have "\<lfloor>log 2 \<bar>x\<bar>\<rfloor> = k"
    using pos by (subst floor_log_eq_powr_iff) simp_all
  then show ?thesis
    using pos assms(3) by (simp add: double_round_def Let_def max_def)
qed

text \<open>The double nearest to \<open>0.1\<close> is a little above it.\<close>

lemma double_tenth: "double_round 0.1 = 3602879701896397 / 2 ^ 55"
  by (subst double_round_binade [where k = "- 4"])
    (simp_all add: round_half_even_def power_int_minus)

lemma loop_value_Suc: "loop_value (Suc k) = double_add (loop_value k) (double_round 0.1)"
  by (simp add: loop_value_def)

lemma loop_value_step:
  assumes "loop_value i = a"
    and "2 powi k \<le> \<bar>a + 3602879701896397 / 2 ^ 55\<bar>"
    and "\<bar>a + 3602879701896397 / 2 ^ 55\<bar> < 2 powi (k + 1)"
    and "- 1022 \<le> k"
    and "of_int (round_half_even ((a + 3602879701896397 / 2 ^ 55) / 2 powi (k - 52)))
           * 2 powi (k - 52) = b"
    and "j = Suc i"
  shows "loop_value j = b"
  unfolding assms(6) loop_value_Suc assms(1) double_tenth double_add_def
  using assms(2-5) by (simp only: double_round_binade)

text \<open>
  The 102 values of the loop variable, each obtained from the one before by one double
  addition; \<open>k\<close> names the binade of the exact sum. All but those of pass 0 and
  pass 75 are off the grid of tenths; the one at pass 100 is below 5, the next above.
\<close>

lemma loop_value_table:
  "map loop_value [0..<101] =
     [- 5, - 2758454771764429 / 2 ^ 49, - 1351079888211149 / 2 ^ 48,
      - 2645864781080167 / 2 ^ 49, - 647392446434509 / 2 ^ 47,
      - 2533274790395905 / 2 ^ 49, - 1238489897526887 / 2 ^ 48,
      - 2420684799711643 / 2 ^ 49, - 295548725546189 / 2 ^ 46,
      - 2308094809027381 / 2 ^ 49, - 1125899906842625 / 2 ^ 48,
      - 8782019273372475 / 2 ^ 51, - 4278419646001975 / 2 ^ 50,
      - 8331659310635425 / 2 ^ 51, - 2026619832316725 / 2 ^ 49,
      - 7881299347898375 / 2 ^ 51, - 3828059683264925 / 2 ^ 50,
      - 7430939385161325 / 2 ^ 51, - 225179981368525 / 2 ^ 46,
      - 6980579422424275 / 2 ^ 51, - 3377699720527875 / 2 ^ 50,
      - 6530219459687225 / 2 ^ 51, - 1576259869579675 / 2 ^ 49,
      - 6079859496950175 / 2 ^ 51, - 2927339757790825 / 2 ^ 50,
      - 5629499534213125 / 2 ^ 51, - 675539944105575 / 2 ^ 48,
      - 5179139571476075 / 2 ^ 51, - 2476979795053775 / 2 ^ 50,
      - 4728779608739025 / 2 ^ 51, - 1125899906842625 / 2 ^ 49,
      - 4278419646001975 / 2 ^ 51, - 2026619832316725 / 2 ^ 50,
      - 3828059683264925 / 2 ^ 51, - 225179981368525 / 2 ^ 47,
      - 3377699720527875 / 2 ^ 51, - 1576259869579675 / 2 ^ 50,
      - 2927339757790825 / 2 ^ 51, - 675539944105575 / 2 ^ 49,
      - 2476979795053775 / 2 ^ 51, - 1125899906842625 / 2 ^ 50,
      - 8106479329266901 / 2 ^ 53, - 3602879701896401 / 2 ^ 52,
      - 6305039478318703 / 2 ^ 53, - 1351079888211151 / 2 ^ 51,
      - 4503599627370505 / 2 ^ 53, - 1801439850948203 / 2 ^ 52,
      - 2702159776422307 / 2 ^ 53, - 7205759403792831 / 2 ^ 55,
      - 1801439850948217 / 2 ^ 54, - 37 / 2 ^ 55, 450359962737045 / 2 ^ 52,
      7205759403792757 / 2 ^ 55, 5404319552844577 / 2 ^ 54, 900719925474097 / 2 ^ 51,
      4503599627370487 / 2 ^ 53, 2702159776422293 / 2 ^ 52, 6305039478318685 / 2 ^ 53,
      450359962737049 / 2 ^ 49, 8106479329266883 / 2 ^ 53, 4503599627370491 / 2 ^ 52,
      4953959590107541 / 2 ^ 52, 5404319552844591 / 2 ^ 52, 5854679515581641 / 2 ^ 52,
      6305039478318691 / 2 ^ 52, 6755399441055741 / 2 ^ 52, 7205759403792791 / 2 ^ 52,
      7656119366529841 / 2 ^ 52, 8106479329266891 / 2 ^ 52, 8556839292003941 / 2 ^ 52,
      9007199254740991 / 2 ^ 52, 1182194902184755 / 2 ^ 49, 4953959590107545 / 2 ^ 51,
      2589569785738035 / 2 ^ 50, 5404319552844595 / 2 ^ 51, 5 / 2 ^ 1,
      5854679515581645 / 2 ^ 51, 3039929748475085 / 2 ^ 50, 6305039478318695 / 2 ^ 51,
      1632554864921805 / 2 ^ 49, 6755399441055745 / 2 ^ 51, 3490289711212135 / 2 ^ 50,
      7205759403792795 / 2 ^ 51, 928867423145165 / 2 ^ 48, 7656119366529845 / 2 ^ 51,
      3940649673949185 / 2 ^ 50, 8106479329266895 / 2 ^ 51, 2082914827658855 / 2 ^ 49,
      8556839292003945 / 2 ^ 51, 4391009636686235 / 2 ^ 50, 4503599627370497 / 2 ^ 50,
      4616189618054759 / 2 ^ 50, 4728779608739021 / 2 ^ 50, 4841369599423283 / 2 ^ 50,
      4953959590107545 / 2 ^ 50, 5066549580791807 / 2 ^ 50, 5179139571476069 / 2 ^ 50,
      5291729562160331 / 2 ^ 50, 5404319552844593 / 2 ^ 50, 5516909543528855 / 2 ^ 50,
      5629499534213117 / 2 ^ 50]"
  "loop_value 101 = 5742089524897379 / 2 ^ 50"
proof -
  have f0: "loop_value 0 = - 5"
    by (simp add: loop_value_def)
  have f1: "loop_value 1 = - 2758454771764429 / 2 ^ 49"
    by (rule loop_value_step [OF f0, where k = "2"])
      (simp_all add: round_half_even_def power_int_minus)
  have f2: "loop_value 2 = - 1351079888211149 / 2 ^ 48"
    by (rule loop_value_step [OF f1, where k = "2"])
      (simp_all add: round_half_even_def power_int_minus)
  have f3: "loop_value 3 = - 2645864781080167 / 2 ^ 49"
    by (rule loop_value_step [OF f2, where k = "2"])
      (simp_all add: round_half_even_def power_int_minus)
  have f4: "loop_value 4 = - 647392446434509 / 2 ^ 47"
    by (rule loop_value_step [OF f3, where k = "2"])
      (simp_all add: round_half_even_def power_int_minus)
  have f5: "loop_value 5 = - 2533274790395905 / 2 ^ 49"
    by (rule loop_value_step [OF f4, where k = "2"])
      (simp_all add: round_half_even_def power_int_minus)
  have f6: "loop_value 6 = - 1238489897526887 / 2 ^ 48"
    by (rule loop_value_step [OF f5, where k = "2"])
      (simp_all add: round_half_even_def power_int_minus)
  have f7: "loop_value 7 = - 2420684799711643 / 2 ^ 49"
    by (rule loop_value_step [OF f6, where k = "2"])
      (simp_all add: round_half_even_def power_int_minus)
  have f8: "loop_value 8 = - 295548725546189 / 2 ^ 46"
    by (rule loop_value_step [OF f7, where k = "2"])
      (simp_all add: round_half_even_def power_int_minus)
  have f9: "loop_value 9 = - 2308094809027381 / 2 ^ 49"
    by (rule loop_value_step [OF f8, where k = "2"])
      (simp_all add: round_half_even_def power_int_minus)
  have f10: "loop_value 10 = - 1125899906842625 / 2 ^ 48"
    by (rule loop_value_step [OF f9, where k = "2"])
      (simp_all add: round_half_even_def power_int_minus)
  have f11: "loop_value 11 = - 8782019273372475 / 2 ^ 51"
    by (rule loop_value_step [OF f10, where k = "1"])
      (simp_all add: round_half_even_def power_int_minus)
  have f12: "loop_value 12 = - 4278419646001975 / 2 ^ 50"
    by (rule loop_value_step [OF f11, where k = "1"])
      (simp_all add: round_half_even_def power_int_minus)
  have f13: "loop_value 13 = - 8331659310635425 / 2 ^ 51"
    by (rule loop_value_step [OF f12, where k = "1"])
      (simp_all add: round_half_even_def power_int_minus)
  have f14: "loop_value 14 = - 2026619832316725 / 2 ^ 49"
    by (rule loop_value_step [OF f13, where k = "1"])
      (simp_all add: round_half_even_def power_int_minus)
  have f15: "loop_value 15 = - 7881299347898375 / 2 ^ 51"
    by (rule loop_value_step [OF f14, where k = "1"])
      (simp_all add: round_half_even_def power_int_minus)
  have f16: "loop_value 16 = - 3828059683264925 / 2 ^ 50"
    by (rule loop_value_step [OF f15, where k = "1"])
      (simp_all add: round_half_even_def power_int_minus)
  have f17: "loop_value 17 = - 7430939385161325 / 2 ^ 51"
    by (rule loop_value_step [OF f16, where k = "1"])
      (simp_all add: round_half_even_def power_int_minus)
  have f18: "loop_value 18 = - 225179981368525 / 2 ^ 46"
    by (rule loop_value_step [OF f17, where k = "1"])
      (simp_all add: round_half_even_def power_int_minus)
  have f19: "loop_value 19 = - 6980579422424275 / 2 ^ 51"
    by (rule loop_value_step [OF f18, where k = "1"])
      (simp_all add: round_half_even_def power_int_minus)
  have f20: "loop_value 20 = - 3377699720527875 / 2 ^ 50"
    by (rule loop_value_step [OF f19, where k = "1"])
      (simp_all add: round_half_even_def power_int_minus)
  have f21: "loop_value 21 = - 6530219459687225 / 2 ^ 51"
    by (rule loop_value_step [OF f20, where k = "1"])
      (simp_all add: round_half_even_def power_int_minus)
  have f22: "loop_value 22 = - 1576259869579675 / 2 ^ 49"
    by (rule loop_value_step [OF f21, where k = "1"])
      (simp_all add: round_half_even_def power_int_minus)
  have f23: "loop_value 23 = - 6079859496950175 / 2 ^ 51"
    by (rule loop_value_step [OF f22, where k = "1"])
      (simp_all add: round_half_even_def power_int_minus)
  have f24: "loop_value 24 = - 2927339757790825 / 2 ^ 50"
    by (rule loop_value_step [OF f23, where k = "1"])
      (simp_all add: round_half_even_def power_int_minus)
  have f25: "loop_value 25 = - 5629499534213125 / 2 ^ 51"
    by (rule loop_value_step [OF f24, where k = "1"])
      (simp_all add: round_half_even_def power_int_minus)
  have f26: "loop_value 26 = - 675539944105575 / 2 ^ 48"
    by (rule loop_value_step [OF f25, where k = "1"])
      (simp_all add: round_half_even_def power_int_minus)
  have f27: "loop_value 27 = - 5179139571476075 / 2 ^ 51"
    by (rule loop_value_step [OF f26, where k = "1"])
      (simp_all add: round_half_even_def power_int_minus)
  have f28: "loop_value 28 = - 2476979795053775 / 2 ^ 50"
    by (rule loop_value_step [OF f27, where k = "1"])
      (simp_all add: round_half_even_def power_int_minus)
  have f29: "loop_value 29 = - 4728779608739025 / 2 ^ 51"
    by (rule loop_value_step [OF f28, where k = "1"])
      (simp_all add: round_half_even_def power_int_minus)
  have f30: "loop_value 30 = - 1125899906842625 / 2 ^ 49"
    by (rule loop_value_step [OF f29, where k = "1"])
      (simp_all add: round_half_even_def power_int_minus)
  have f31: "loop_value 31 = - 4278419646001975 / 2 ^ 51"
    by (rule loop_value_step [OF f30, where k = "0"])
      (simp_all add: round_half_even_def power_int_minus)
  have f32: "loop_value 32 = - 2026619832316725 / 2 ^ 50"
    by (rule loop_value_step [OF f31, where k = "0"])
      (simp_all add: round_half_even_def power_int_minus)
  have f33: "loop_value 33 = - 3828059683264925 / 2 ^ 51"
    by (rule loop_value_step [OF f32, where k = "0"])
      (simp_all add: round_half_even_def power_int_minus)
  have f34: "loop_value 34 = - 225179981368525 / 2 ^ 47"
    by (rule loop_value_step [OF f33, where k = "0"])
      (simp_all add: round_half_even_def power_int_minus)
  have f35: "loop_value 35 = - 3377699720527875 / 2 ^ 51"
    by (rule loop_value_step [OF f34, where k = "0"])
      (simp_all add: round_half_even_def power_int_minus)
  have f36: "loop_value 36 = - 1576259869579675 / 2 ^ 50"
    by (rule loop_value_step [OF f35, where k = "0"])
      (simp_all add: round_half_even_def power_int_minus)
  have f37: "loop_value 37 = - 2927339757790825 / 2 ^ 51"
    by (rule loop_value_step [OF f36, where k = "0"])
      (simp_all add: round_half_even_def power_int_minus)
  have f38: "loop_value 38 = - 675539944105575 / 2 ^ 49"
    by (rule loop_value_step [OF f37, where k = "0"])
      (simp_all add: round_half_even_def power_int_minus)
  have f39: "loop_value 39 = - 2476979795053775 / 2 ^ 51"
    by (rule loop_value_step [OF f38, where k = "0"])
      (simp_all add: round_half_even_def power_int_minus)
  have f40: "loop_value 40 = - 1125899906842625 / 2 ^ 50"
    by (rule loop_value_step [OF f39, where k = "0"])
      (simp_all add: round_half_even_def power_int_minus)
  have f41: "loop_value 41 = - 8106479329266901 / 2 ^ 53"
    by (rule loop_value_step [OF f40, where k = "- 1"])
      (simp_all add: round_half_even_def power_int_minus)
  have f42: "loop_value 42 = - 3602879701896401 / 2 ^ 52"
    by (rule loop_value_step [OF f41, where k = "- 1"])
      (simp_all add: round_half_even_def power_int_minus)
  have f43: "loop_value 43 = - 6305039478318703 / 2 ^ 53"
    by (rule loop_value_step [OF f42, where k = "- 1"])
      (simp_all add: round_half_even_def power_int_minus)
  have f44: "loop_value 44 = - 1351079888211151 / 2 ^ 51"
    by (rule loop_value_step [OF f43, where k = "- 1"])
      (simp_all add: round_half_even_def power_int_minus)
  have f45: "loop_value 45 = - 4503599627370505 / 2 ^ 53"
    by (rule loop_value_step [OF f44, where k = "- 1"])
      (simp_all add: round_half_even_def power_int_minus)
  have f46: "loop_value 46 = - 1801439850948203 / 2 ^ 52"
    by (rule loop_value_step [OF f45, where k = "- 2"])
      (simp_all add: round_half_even_def power_int_minus)
  have f47: "loop_value 47 = - 2702159776422307 / 2 ^ 53"
    by (rule loop_value_step [OF f46, where k = "- 2"])
      (simp_all add: round_half_even_def power_int_minus)
  have f48: "loop_value 48 = - 7205759403792831 / 2 ^ 55"
    by (rule loop_value_step [OF f47, where k = "- 3"])
      (simp_all add: round_half_even_def power_int_minus)
  have f49: "loop_value 49 = - 1801439850948217 / 2 ^ 54"
    by (rule loop_value_step [OF f48, where k = "- 4"])
      (simp_all add: round_half_even_def power_int_minus)
  have f50: "loop_value 50 = - 37 / 2 ^ 55"
    by (rule loop_value_step [OF f49, where k = "- 50"])
      (simp_all add: round_half_even_def power_int_minus)
  have f51: "loop_value 51 = 450359962737045 / 2 ^ 52"
    by (rule loop_value_step [OF f50, where k = "- 4"])
      (simp_all add: round_half_even_def power_int_minus)
  have f52: "loop_value 52 = 7205759403792757 / 2 ^ 55"
    by (rule loop_value_step [OF f51, where k = "- 3"])
      (simp_all add: round_half_even_def power_int_minus)
  have f53: "loop_value 53 = 5404319552844577 / 2 ^ 54"
    by (rule loop_value_step [OF f52, where k = "- 2"])
      (simp_all add: round_half_even_def power_int_minus)
  have f54: "loop_value 54 = 900719925474097 / 2 ^ 51"
    by (rule loop_value_step [OF f53, where k = "- 2"])
      (simp_all add: round_half_even_def power_int_minus)
  have f55: "loop_value 55 = 4503599627370487 / 2 ^ 53"
    by (rule loop_value_step [OF f54, where k = "- 2"])
      (simp_all add: round_half_even_def power_int_minus)
  have f56: "loop_value 56 = 2702159776422293 / 2 ^ 52"
    by (rule loop_value_step [OF f55, where k = "- 1"])
      (simp_all add: round_half_even_def power_int_minus)
  have f57: "loop_value 57 = 6305039478318685 / 2 ^ 53"
    by (rule loop_value_step [OF f56, where k = "- 1"])
      (simp_all add: round_half_even_def power_int_minus)
  have f58: "loop_value 58 = 450359962737049 / 2 ^ 49"
    by (rule loop_value_step [OF f57, where k = "- 1"])
      (simp_all add: round_half_even_def power_int_minus)
  have f59: "loop_value 59 = 8106479329266883 / 2 ^ 53"
    by (rule loop_value_step [OF f58, where k = "- 1"])
      (simp_all add: round_half_even_def power_int_minus)
  have f60: "loop_value 60 = 4503599627370491 / 2 ^ 52"
    by (rule loop_value_step [OF f59, where k = "- 1"])
      (simp_all add: round_half_even_def power_int_minus)
  have f61: "loop_value 61 = 4953959590107541 / 2 ^ 52"
    by (rule loop_value_step [OF f60, where k = "0"])
      (simp_all add: round_half_even_def power_int_minus)
  have f62: "loop_value 62 = 5404319552844591 / 2 ^ 52"
    by (rule loop_value_step [OF f61, where k = "0"])
      (simp_all add: round_half_even_def power_int_minus)
  have f63: "loop_value 63 = 5854679515581641 / 2 ^ 52"
    by (rule loop_value_step [OF f62, where k = "0"])
      (simp_all add: round_half_even_def power_int_minus)
  have f64: "loop_value 64 = 6305039478318691 / 2 ^ 52"
    by (rule loop_value_step [OF f63, where k = "0"])
      (simp_all add: round_half_even_def power_int_minus)
  have f65: "loop_value 65 = 6755399441055741 / 2 ^ 52"
    by (rule loop_value_step [OF f64, where k = "0"])
      (simp_all add: round_half_even_def power_int_minus)
  have f66: "loop_value 66 = 7205759403792791 / 2 ^ 52"
    by (rule loop_value_step [OF f65, where k = "0"])
      (simp_all add: round_half_even_def power_int_minus)
  have f67: "loop_value 67 = 7656119366529841 / 2 ^ 52"
    by (rule loop_value_step [OF f66, where k = "0"])
      (simp_all add: round_half_even_def power_int_minus)
  have f68: "loop_value 68 = 8106479329266891 / 2 ^ 52"
    by (rule loop_value_step [OF f67, where k = "0"])
      (simp_all add: round_half_even_def power_int_minus)
  have f69: "loop_value 69 = 8556839292003941 / 2 ^ 52"
    by (rule loop_value_step [OF f68, where k = "0"])
      (simp_all add: round_half_even_def power_int_minus)
  have f70: "loop_value 70 = 9007199254740991 / 2 ^ 52"
    by (rule loop_value_step [OF f69, where k = "0"])
      (simp_all add: round_half_even_def power_int_minus)
  have f71: "loop_value 71 = 1182194902184755 / 2 ^ 49"
    by (rule loop_value_step [OF f70, where k = "1"])
      (simp_all add: round_half_even_def power_int_minus)
  have f72: "loop_value 72 = 4953959590107545 / 2 ^ 51"
    by (rule loop_value_step [OF f71, where k = "1"])
      (simp_all add: round_half_even_def power_int_minus)
  have f73: "loop_value 73 = 2589569785738035 / 2 ^ 50"
    by (rule loop_value_step [OF f72, where k = "1"])
      (simp_all add: round_half_even_def power_int_minus)
  have f74: "loop_value 74 = 5404319552844595 / 2 ^ 51"
    by (rule loop_value_step [OF f73, where k = "1"])
      (simp_all add: round_half_even_def power_int_minus)
  have f75: "loop_value 75 = 5 / 2 ^ 1"
    by (rule loop_value_step [OF f74, where k = "1"])
      (simp_all add: round_half_even_def power_int_minus)
  have f76: "loop_value 76 = 5854679515581645 / 2 ^ 51"
    by (rule loop_value_step [OF f75, where k = "1"])
      (simp_all add: round_half_even_def power_int_minus)
  have f77: "loop_value 77 = 3039929748475085 / 2 ^ 50"
    by (rule loop_value_step [OF f76, where k = "1"])
      (simp_all add: round_half_even_def power_int_minus)
  have f78: "loop_value 78 = 6305039478318695 / 2 ^ 51"
    by (rule loop_value_step [OF f77, where k = "1"])
      (simp_all add: round_half_even_def power_int_minus)
  have f79: "loop_value 79 = 1632554864921805 / 2 ^ 49"
    by (rule loop_value_step [OF f78, where k = "1"])
      (simp_all add: round_half_even_def power_int_minus)
  have f80: "loop_value 80 = 6755399441055745 / 2 ^ 51"
    by (rule loop_value_step [OF f79, where k = "1"])
      (simp_all add: round_half_even_def power_int_minus)
  have f81: "loop_value 81 = 3490289711212135 / 2 ^ 50"
    by (rule loop_value_step [OF f80, where k = "1"])
      (simp_all add: round_half_even_def power_int_minus)
  have f82: "loop_value 82 = 7205759403792795 / 2 ^ 51"
    by (rule loop_value_step [OF f81, where k = "1"])
      (simp_all add: round_half_even_def power_int_minus)
  have f83: "loop_value 83 = 928867423145165 / 2 ^ 48"
    by (rule loop_value_step [OF f82, where k = "1"])
      (simp_all add: round_half_even_def power_int_minus)
  have f84: "loop_value 84 = 7656119366529845 / 2 ^ 51"
    by (rule loop_value_step [OF f83, where k = "1"])
      (simp_all add: round_half_even_def power_int_minus)
  have f85: "loop_value 85 = 3940649673949185 / 2 ^ 50"
    by (rule loop_value_step [OF f84, where k = "1"])
      (simp_all add: round_half_even_def power_int_minus)
  have f86: "loop_value 86 = 8106479329266895 / 2 ^ 51"
    by (rule loop_value_step [OF f85, where k = "1"])
      (simp_all add: round_half_even_def power_int_minus)
  have f87: "loop_value 87 = 2082914827658855 / 2 ^ 49"
    by (rule loop_value_step [OF f86, where k = "1"])
      (simp_all add: round_half_even_def power_int_minus)
  have f88: "loop_value 88 = 8556839292003945 / 2 ^ 51"
    by (rule loop_value_step [OF f87, where k = "1"])
      (simp_all add: round_half_even_def power_int_minus)
  have f89: "loop_value 89 = 4391009636686235 / 2 ^ 50"
    by (rule loop_value_step [OF f88, where k = "1"])
      (simp_all add: round_half_even_def power_int_minus)
  have f90: "loop_value 90 = 4503599627370497 / 2 ^ 50"
    by (rule loop_value_step [OF f89, where k = "2"])
      (simp_all add: round_half_even_def power_int_minus)
  have f91: "loop_value 91 = 4616189618054759 / 2 ^ 50"
    by (rule loop_value_step [OF f90, where k = "2"])
      (simp_all add: round_half_even_def power_int_minus)
  have f92: "loop_value 92 = 4728779608739021 / 2 ^ 50"
    by (rule loop_value_step [OF f91, where k = "2"])
      (simp_all add: round_half_even_def power_int_minus)
  have f93: "loop_value 93 = 4841369599423283 / 2 ^ 50"
    by (rule loop_value_step [OF f92, where k = "2"])
      (simp_all add: round_half_even_def power_int_minus)
  have f94: "loop_value 94 = 4953959590107545 / 2 ^ 50"
    by (rule loop_value_step [OF f93, where k = "2"])
      (simp_all add: round_half_even_def power_int_minus)
  have f95: "loop_value 95 = 5066549580791807 / 2 ^ 50"
    by (rule loop_value_step [OF f94, where k = "2"])
      (simp_all add: round_half_even_def power_int_minus)
  have f96: "loop_value 96 = 5179139571476069 / 2 ^ 50"
    by (rule loop_value_step [OF f95, where k = "2"])
      (simp_all add: round_half_even_def power_int_minus)
  have f97: "loop_value 97 = 5291729562160331 / 2 ^ 50"
    by (rule loop_value_step [OF f96, where k = "2"])
      (simp_all add: round_half_even_def power_int_minus)
  have f98: "loop_value 98 = 5404319552844593 / 2 ^ 50"
    by (rule loop_value_step [OF f97, where k = "2"])
      (simp_all add: round_half_even_def power_int_minus)
  have f99: "loop_value 99 = 5516909543528855 / 2 ^ 50"
    by (rule loop_value_step [OF f98, where k = "2"])
      (simp_all add: round_half_even_def power_int_minus)
  have f100: "loop_value 100 = 5629499534213117 / 2 ^ 50"
    by (rule loop_value_step [OF f99, where k = "2"])
      (simp_all add: round_half_even_def power_int_minus)
  have f101: "loop_value 101 = 5742089524897379 / 2 ^ 50"
    by (rule loop_value_step [OF f100, where k = "2"])
      (simp_all add: round_half_even_def power_int_minus)
  have head: "[0..<101] = 0 # Suc 0 # [2..<101]"
    by (simp add: upt_conv_Cons)
  show "map loop_value [0..<101] =
     [- 5, - 2758454771764429 / 2 ^ 49, - 1351079888211149 / 2 ^ 48,
      - 2645864781080167 / 2 ^ 49, - 647392446434509 / 2 ^ 47,
      - 2533274790395905 / 2 ^ 49, - 1238489897526887 / 2 ^ 48,
      - 2420684799711643 / 2 ^ 49, - 295548725546189 / 2 ^ 46,
      - 2308094809027381 / 2 ^ 49, - 1125899906842625 / 2 ^ 48,
      - 8782019273372475 / 2 ^ 51, - 4278419646001975 / 2 ^ 50,
      - 8331659310635425 / 2 ^ 51, - 2026619832316725 / 2 ^ 49,
      - 7881299347898375 / 2 ^ 51, - 3828059683264925 / 2 ^ 50,
      - 7430939385161325 / 2 ^ 51, - 225179981368525 / 2 ^ 46,
      - 6980579422424275 / 2 ^ 51, - 3377699720527875 / 2 ^ 50,
      - 6530219459687225 / 2 ^ 51, - 1576259869579675 / 2 ^ 49,
      - 6079859496950175 / 2 ^ 51, - 2927339757790825 / 2 ^ 50,
      - 5629499534213125 / 2 ^ 51, - 675539944105575 / 2 ^ 48,
      - 5179139571476075 / 2 ^ 51, - 2476979795053775 / 2 ^ 50,
      - 4728779608739025 / 2 ^ 51, - 1125899906842625 / 2 ^ 49,
      - 4278419646001975 / 2 ^ 51, - 2026619832316725 / 2 ^ 50,
      - 3828059683264925 / 2 ^ 51, - 225179981368525 / 2 ^ 47,
      - 3377699720527875 / 2 ^ 51, - 1576259869579675 / 2 ^ 50,
      - 2927339757790825 / 2 ^ 51, - 675539944105575 / 2 ^ 49,
      - 2476979795053775 / 2 ^ 51, - 1125899906842625 / 2 ^ 50,
      - 8106479329266901 / 2 ^ 53, - 3602879701896401 / 2 ^ 52,
      - 6305039478318703 / 2 ^ 53, - 1351079888211151 / 2 ^ 51,
      - 4503599627370505 / 2 ^ 53, - 1801439850948203 / 2 ^ 52,
      - 2702159776422307 / 2 ^ 53, - 7205759403792831 / 2 ^ 55,
      - 1801439850948217 / 2 ^ 54, - 37 / 2 ^ 55, 450359962737045 / 2 ^ 52,
      7205759403792757 / 2 ^ 55, 5404319552844577 / 2 ^ 54, 900719925474097 / 2 ^ 51,
      4503599627370487 / 2 ^ 53, 2702159776422293 / 2 ^ 52, 6305039478318685 / 2 ^ 53,
      450359962737049 / 2 ^ 49, 8106479329266883 / 2 ^ 53, 4503599627370491 / 2 ^ 52,
      4953959590107541 / 2 ^ 52, 5404319552844591 / 2 ^ 52, 5854679515581641 / 2 ^ 52,
      6305039478318691 / 2 ^ 52, 6755399441055741 / 2 ^ 52, 7205759403792791 / 2 ^ 52,
      7656119366529841 / 2 ^ 52, 8106479329266891 / 2 ^ 52, 8556839292003941 / 2 ^ 52,
      9007199254740991 / 2 ^ 52, 1182194902184755 / 2 ^ 49, 4953959590107545 / 2 ^ 51,
      2589569785738035 / 2 ^ 50, 5404319552844595 / 2 ^ 51, 5 / 2 ^ 1,
      5854679515581645 / 2 ^ 51, 3039929748475085 / 2 ^ 50, 6305039478318695 / 2 ^ 51,
      1632554864921805 / 2 ^ 49, 6755399441055745 / 2 ^ 51, 3490289711212135 / 2 ^ 50,
      7205759403792795 / 2 ^ 51, 928867423145165 / 2 ^ 48, 7656119366529845 / 2 ^ 51,
      3940649673949185 / 2 ^ 50, 8106479329266895 / 2 ^ 51, 2082914827658855 / 2 ^ 49,
      8556839292003945 / 2 ^ 51, 4391009636686235 / 2 ^ 50, 4503599627370497 / 2 ^ 50,
      4616189618054759 / 2 ^ 50, 4728779608739021 / 2 ^ 50, 4841369599423283 / 2 ^ 50,
      4953959590107545 / 2 ^ 50, 5066549580791807 / 2 ^ 50, 5179139571476069 / 2 ^ 50,
      5291729562160331 / 2 ^ 50, 5404319552844593 / 2 ^ 50, 5516909543528855 / 2 ^ 50,
      5629499534213117 / 2 ^ 50]"
    unfolding head
    by (simp add: upt_rec_numeral
        f0 f1 [unfolded One_nat_def] f2 f3 f4 f5 f6 f7 f8 f9 f10 f11 f12 f13
        f14 f15 f16 f17 f18 f19 f20 f21 f22 f23 f24 f25 f26 f27 f28 f29
        f30 f31 f32 f33 f34 f35 f36 f37 f38 f39 f40 f41 f42 f43 f44 f45
        f46 f47 f48 f49 f50 f51 f52 f53 f54 f55 f56 f57 f58 f59 f60 f61
        f62 f63 f64 f65 f66 f67 f68 f69 f70 f71 f72 f73 f74 f75 f76 f77
        f78 f79 f80 f81 f82 f83 f84 f85 f86 f87 f88 f89 f90 f91 f92 f93
        f94 f95 f96 f97 f98 f99 f100)
  show "loop_value 101 = 5742089524897379 / 2 ^ 50"
    by (rule f101)
qed

lemma loop_value_le:
  assumes "k < 101"
  shows "loop_value k \<le> 5"
proof -
  have "list_all (\<lambda>u. u \<le> 5) (map loop_value [0..<101])"
    unfolding loop_value_table(1) by simp
  then have "\<forall>u \<in> set (map loop_value [0..<101]). u \<le> 5"
    by (simp only: list_all_iff)
  moreover have "loop_value k \<in> set (map loop_value [0..<101])"
    using assms by simp
  ultimately show ?thesis by blast
qed

lemma loop_value_end: "\<not> loop_value 101 \<le> 5"
  unfolding loop_value_table(2) by simp

lemma toFixed2_loop_value:
  assumes "k < 101"
  shows "toFixed2 (loop_value k) = - 5 + real k / 10"
proof -
  have "map toFixed2 (map loop_value [0..<101]) = map (\<lambda>k. - 5 + real k / 10) [0..<101]"
    unfolding loop_value_table(1) by (simp add: upt_rec toFixed2_def)
  then have "map toFixed2 (map loop_value [0..<101]) ! k
      = map (\<lambda>k. - 5 + real k / 10) [0..<101] ! k"
    by (simp only:)
  then show ?thesis
    using assms by simp
qed

subsection \<open>The passes of the sweep\<close>

lemma sweep_from:
  assumes "k \<le> 101"
  shows "sweep p (loop_value k) xs ys =
           Some (xs @ map (\<lambda>j. mk_point p IDEAL (- 5 + real j / 10)) [k..<101],
                 ys @ map (\<lambda>j. mk_point p NON_IDEAL (- 5 + real j / 10)) [k..<101])"
  using assms
proof (induction "101 - k" arbitrary: k xs ys)
  case 0
  then have k: "k = 101" by simp
  show ?case
    unfolding k using loop_value_end by (subst sweep.simps) simp
next
  case (Suc d)
  then have lt: "k < 101" and d: "d = 101 - Suc k" and le: "Suc k \<le> 101"
    by simp_all
  have cond: "loop_value k \<le> 5.0"
    using loop_value_le [OF lt] by simp
  have upt: "[k..<101] = k # [Suc k..<101]"
    using lt by (simp add: upt_conv_Cons)
  show ?case
    apply (subst sweep.simps)
    apply (simp only: cond if_True Let_def loop_value_Suc [symmetric] toFixed2_loop_value [OF lt]
        Suc.hyps(1) [OF d le])
    apply (simp add: upt mk_point_def)
    done
qed

lemma generateCurveData_eq:
  "generateCurveData p =
     Some (map (\<lambda>j. mk_point p IDEAL (- 5 + real j / 10)) [0..<101],
           map (\<lambda>j. mk_point p NON_IDEAL (- 5 + real j / 10)) [0..<101])"
proof -
  have "generateCurveData p = sweep p (loop_value 0) [] []"
    by (simp add: generateCurveData_def loop_value_def)
  then show ?thesis
    by (simp add: sweep_from)
qed

lemma sweep_same_voltages_aux:
  assumes run: "sweep p x xs ys = Some r"
  shows "map point_v xs = map point_v ys \<longrightarrow> map point_v (fst r) = map point_v (snd r)"
proof (rule sweep.raw_induct
    [where P = "\<lambda>p x xs ys r. map point_v xs = map point_v ys
                  \<longrightarrow> map point_v (fst r) = map point_v (snd r)", OF _ run])
  fix sweep' params v idealPoints nonIdealPoints r
  assume IH: "\<And>params v idealPoints nonIdealPoints r.
      sweep' params v idealPoints nonIdealPoints = Some r \<Longrightarrow>
      map point_v idealPoints = map point_v nonIdealPoints
        \<longrightarrow> map point_v (fst r) = map point_v (snd r)"
    and body: "(if v \<le> 5.0 then
        (let vFixed = toFixed2 v
         in sweep' params (double_add v (double_round 0.1))
              (idealPoints @
                 [\<lparr>point_v = vFixed,
                   point_i = calculateCurrent vFixed params IDEAL * 1000\<rparr>])
              (nonIdealPoints @
                 [\<lparr>point_v = vFixed,
                   point_i = calculateCurrent vFixed params NON_IDEAL * 1000\<rparr>]))
      else Some (idealPoints, nonIdealPoints)) = Some r"
  show "map point_v idealPoints = map point_v nonIdealPoints
      \<longrightarrow> map point_v (fst r) = map point_v (snd r)"
  proof
    assume same: "map point_v idealPoints = map point_v nonIdealPoints"
    show "map point_v (fst r) = map point_v (snd r)"
    proof (cases "v \<le> 5.0")
      case True
      with body have
        "sweep' params (double_add v (double_round 0.1))
           (idealPoints @ [\<lparr>point_v = toFixed2 v,
              point_i = calculateCurrent (toFixed2 v) params IDEAL * 1000\<rparr>])
           (nonIdealPoints @ [\<lparr>point_v = toFixed2 v,
              point_i = calculateCurrent (toFixed2 v) params NON_IDEAL * 1000\<rparr>]) = Some r"
        by (simp add: Let_def)
      from IH [OF this] show ?thesis
        using same by simp
    next
      case False
      with body have "r = (idealPoints, nonIdealPoints)"
        by simp
      then show ?thesis
        using same by simp
    qed
  qed
qed

lemma sweep_same_voltages:
  assumes "sweep p x xs ys = Some r" and "map point_v xs = map point_v ys"
  shows "map point_v (fst r) = map point_v (snd r)"
  using sweep_same_voltages_aux [OF assms(1)] assms(2) by blast

lemma grid_sorted: "sorted_wrt (<) (map (\<lambda>k. - 5 + real k / 10) [0..<101])"
proof -
  have "sorted_wrt (\<lambda>j k. - 5 + real j / 10 < - 5 + real k / 10) [0..<101]"
    by (rule sorted_wrt_mono_rel [OF _ sorted_wrt_upt]) simp
  then show ?thesis
    by (simp only: sorted_wrt_map)
qed

text \<open>
  C2. For every parameter set, \<open>generateCurveData\<close> returns, and each of the two series
  it returns has exactly 101 points; the voltages are \<open>-5.00, -4.90, ..., 5.00\<close> (from
  \<open>-5\<close> to \<open>5\<close> inclusive in steps of \<open>0.1\<close>), strictly increasing; each voltage is
  the loop variable (a double that drifts off the grid: at the last pass it is below 5)
  rounded to two decimals; and each recorded current is \<open>calculateCurrent\<close> at the
  rounded voltage, in the mode of the series, times 1000.
\<close>

theorem curve_sampling:
  "\<exists>idealPoints nonIdealPoints.
     generateCurveData p = Some (idealPoints, nonIdealPoints)
     \<and> length idealPoints = 101
     \<and> length nonIdealPoints = 101
     \<and> map point_v idealPoints = map (\<lambda>k. - 5 + real k / 10) [0..<101]
     \<and> map point_v nonIdealPoints = map (\<lambda>k. - 5 + real k / 10) [0..<101]
     \<and> point_v (hd idealPoints) = - 5
     \<and> point_v (last idealPoints) = 5
     \<and> sorted_wrt (<) (map point_v idealPoints)
     \<and> sorted_wrt (<) (map point_v nonIdealPoints)
     \<and> map point_v idealPoints = map (\<lambda>k. toFixed2 (loop_value k)) [0..<101]
     \<and> loop_value 100 < 5 \<and> toFixed2 (loop_value 100) = 5
     \<and> map point_i idealPoints
         = map (\<lambda>x. calculateCurrent x p IDEAL * 1000) (map point_v idealPoints)
     \<and> map point_i nonIdealPoints
         = map (\<lambda>x. calculateCurrent x p NON_IDEAL * 1000) (map point_v nonIdealPoints)"
proof -
  let ?grid = "map (\<lambda>k. - 5 + real k / 10) [0..<101]"
  let ?ideal = "map (\<lambda>j. mk_point p IDEAL (- 5 + real j / 10)) [0..<101]"
  let ?nonideal = "map (\<lambda>j. mk_point p NON_IDEAL (- 5 + real j / 10)) [0..<101]"
  have v1: "map point_v ?ideal = ?grid"
    by (simp add: mk_point_def comp_def)
  have v2: "map point_v ?nonideal = ?grid"
    by (simp add: mk_point_def comp_def)
  have h: "point_v (hd ?ideal) = - 5"
    by (simp add: mk_point_def upt_conv_Cons)
  have "[0..<101] = [0..<100] @ [100]"
    by (simp add: upt_Suc_append [symmetric] del: upt_Suc)
  then have la: "point_v (last ?ideal) = 5"
    by (simp add: mk_point_def)
  have r: "?grid = map (\<lambda>k. toFixed2 (loop_value k)) [0..<101]"
  proof (rule map_cong [OF refl])
    fix k :: nat
    assume "k \<in> set [0..<101]"
    then have "k < 101" by simp
    then show "- 5 + real k / 10 = toFixed2 (loop_value k)"
      by (simp only: toFixed2_loop_value)
  qed
  have drift: "loop_value 100 < 5"
    using nth_map [of 100 "[0..<101]" loop_value]
    unfolding loop_value_table(1) by simp
  have fixed100: "toFixed2 (loop_value 100) = 5"
    using toFixed2_loop_value [of 100] by simp
  have i1: "map point_i ?ideal
       = map (\<lambda>x. calculateCurrent x p IDEAL * 1000) (map point_v ?ideal)"
    by (simp add: mk_point_def comp_def)
  have i2: "map point_i ?nonideal
       = map (\<lambda>x. calculateCurrent x p NON_IDEAL * 1000) (map point_v ?nonideal)"
    by (simp add: mk_point_def comp_def)
  have "generateCurveData p = Some (?ideal, ?nonideal)"
    by (rule generateCurveData_eq)
  moreover have "length ?ideal = 101" and "length ?nonideal = 101"
    by simp_all
  moreover have "sorted_wrt (<) (map point_v ?ideal)" and "sorted_wrt (<) (map point_v ?nonideal)"
    unfolding v1 v2 by (rule grid_sorted)+
  moreover have "map point_v ?ideal = map (\<lambda>k. toFixed2 (loop_value k)) [0..<101]"
    unfolding v1 by (rule r)
  ultimately show ?thesis
    using v1 v2 h la drift fixed100 i1 i2 by blast
qed

text \<open>
  C10. For every parameter set, the two series returned by \<open>generateCurveData\<close> have
  the same length, and at every index the ideal point and the non-ideal point carry the
  same voltage.
\<close>

theorem series_share_grid:
  "\<exists>idealPoints nonIdealPoints.
     generateCurveData p = Some (idealPoints, nonIdealPoints)
     \<and> length idealPoints = length nonIdealPoints
     \<and> (\<forall>k < length idealPoints. point_v (idealPoints ! k) = point_v (nonIdealPoints ! k))"
proof -
  obtain idealPoints nonIdealPoints
    where run: "generateCurveData p = Some (idealPoints, nonIdealPoints)"
    using generateCurveData_eq by blast
  then have "sweep p (- 5.0) [] [] = Some (idealPoints, nonIdealPoints)"
    by (simp only: generateCurveData_def)
  then have "map point_v (fst (idealPoints, nonIdealPoints))
      = map point_v (snd (idealPoints, nonIdealPoints))"
    by (rule sweep_same_voltages) simp
  then have eq: "map point_v idealPoints = map point_v nonIdealPoints"
    by simp
  then have len: "length idealPoints = length nonIdealPoints"
    by (rule map_eq_imp_length_eq)
  have "point_v (idealPoints ! k) = point_v (nonIdealPoints ! k)"
    if "k < length idealPoints" for k
  proof -
    have "map point_v idealPoints ! k = map point_v nonIdealPoints ! k"
      by (simp only: eq)
    then show ?thesis
      using that len by simp
  qed
  with run len show ?thesis by blast
qed

theorem series_share_grid_witness:
  "\<exists>idealPoints nonIdealPoints.
     generateCurveData (getDiodeParams MODERATE) = Some (idealPoints, nonIdealPoints)
     \<and> 100 < length idealPoints
     \<and> point_v (idealPoints ! 100) = point_v (nonIdealPoints ! 100)"
proof -
  obtain idealPoints nonIdealPoints
    where run: "generateCurveData (getDiodeParams MODERATE) = Some (idealPoints, nonIdealPoints)"
      and rest: "length idealPoints = length nonIdealPoints"
        "\<forall>k < length idealPoints. point_v (idealPoints ! k) = point_v (nonIdealPoints ! k)"
    using series_share_grid [of "getDiodeParams MODERATE"] by blast
  have "length idealPoints = 101"
    using run by (auto simp add: generateCurveData_eq)
  then have "100 < length idealPoints"
    by simp
  with run rest show ?thesis
    by blast
qed

section \<open>The Newton-Raphson loop and the specification's iteration\<close>

lemma newton_loop_unfold:
  "newton_loop voltage p i Vd =
     (if i < 10 then
        (if \<bar>spec_newton_step p voltage Vd - Vd\<bar> < 1 / 10 ^ 5 then spec_newton_step p voltage Vd
         else newton_loop voltage p (Suc i) (spec_newton_step p voltage Vd))
      else Vd)"
  by (subst newton_loop.simps)
    (simp add: Let_def spec_newton_step_def spec_newton_f_def spec_newton_df_def
      THERMAL_VOLTAGE_VT_def)

lemma newton_iterations_unfold:
  "newton_iterations voltage p i Vd =
     (if i < 10 then
        (if \<bar>spec_newton_step p voltage Vd - Vd\<bar> < 1 / 10 ^ 5 then Suc i
         else newton_iterations voltage p (Suc i) (spec_newton_step p voltage Vd))
      else i)"
  by (subst newton_iterations.simps)
    (simp add: Let_def spec_newton_step_def spec_newton_f_def spec_newton_df_def
      THERMAL_VOLTAGE_VT_def)

lemma spec_newton_iterate_Suc:
  "spec_newton_iterate p voltage (Suc k)
     = spec_newton_step p voltage (spec_newton_iterate p voltage k)"
  by (simp add: spec_newton_iterate_def)

lemma newton_loop_find:
  assumes "i \<le> 10"
  shows "newton_loop voltage p i (spec_newton_iterate p voltage i) =
     (case find (\<lambda>k. \<bar>spec_newton_iterate p voltage (Suc k) - spec_newton_iterate p voltage k\<bar>
                        < 1 / 10 ^ 5) [i..<10] of
        Some k \<Rightarrow> spec_newton_iterate p voltage (Suc k)
      | None \<Rightarrow> spec_newton_iterate p voltage 10)"
  using assms
proof (induction "10 - i" arbitrary: i)
  case 0
  then have "i = 10" by simp
  then show ?case
    by (subst newton_loop_unfold) simp
next
  case (Suc d)
  then have lt: "i < 10" and d: "d = 10 - Suc i" and le: "Suc i \<le> 10"
    by simp_all
  have upt: "[i..<10] = i # [Suc i..<10]"
    using lt by (simp add: upt_conv_Cons)
  show ?case
    apply (subst newton_loop_unfold)
    apply (simp only: lt if_True upt find.simps spec_newton_iterate_Suc [symmetric])
    apply (simp add: Suc.hyps(1) [OF d le])
    done
qed

lemma newton_iterations_find:
  assumes "i \<le> 10"
  shows "newton_iterations voltage p i (spec_newton_iterate p voltage i) =
     (case find (\<lambda>k. \<bar>spec_newton_iterate p voltage (Suc k) - spec_newton_iterate p voltage k\<bar>
                        < 1 / 10 ^ 5) [i..<10] of
        Some k \<Rightarrow> Suc k
      | None \<Rightarrow> 10)"
  using assms
proof (induction "10 - i" arbitrary: i)
  case 0
  then have "i = 10" by simp
  then show ?case
    by (subst newton_iterations_unfold) simp
next
  case (Suc d)
  then have lt: "i < 10" and d: "d = 10 - Suc i" and le: "Suc i \<le> 10"
    by simp_all
  have upt: "[i..<10] = i # [Suc i..<10]"
    using lt by (simp add: upt_conv_Cons)
  show ?case
    apply (subst newton_iterations_unfold)
    apply (simp only: lt if_True upt find.simps spec_newton_iterate_Suc [symmetric])
    apply (simp add: Suc.hyps(1) [OF d le])
    done
qed

lemma newton_loop_solve: "newton_loop voltage p 0 voltage = spec_newton_solve p voltage"
  using newton_loop_find [of 0 voltage p]
  by (simp add: spec_newton_solve_def spec_newton_iterate_def)

lemma newton_loop_iterations:
  "newton_loop voltage p 0 voltage
     = spec_newton_iterate p voltage (newton_iterations voltage p 0 voltage)"
  using newton_loop_find [of 0 voltage p] newton_iterations_find [of 0 voltage p]
  by (simp add: spec_newton_iterate_def split: option.splits)

lemma newton_iterations_bounds:
  "1 \<le> newton_iterations voltage p 0 voltage \<and> newton_iterations voltage p 0 voltage \<le> 10"
proof -
  have "find P [0..<10] = Some k \<Longrightarrow> k < 10" for P and k :: nat
    by (auto simp: find_Some_iff)
  then show ?thesis
    using newton_iterations_find [of 0 voltage p]
    by (fastforce simp add: spec_newton_iterate_def split: option.splits)
qed

lemma newton_first_exit:
  assumes "\<bar>spec_newton_step p V V - V\<bar> < 1 / 10 ^ 5"
  shows "newton_iterations V p 0 V = 1"
  using assms by (subst newton_iterations_unfold) simp

lemma calculateCurrent_forward:
  assumes "0 \<le> V"
  shows "calculateCurrent V p NON_IDEAL
           = Is p * (exp (min (newton_loop V p 0 V) V / (n p * 0.026)) - 1)"
proof -
  have "(if newton_loop V p 0 V > V then V else newton_loop V p 0 V)
          = min (newton_loop V p 0 V) V"
    by (simp add: min_def)
  then show ?thesis
    using assms by (simp add: calculateCurrent_def Let_def THERMAL_VOLTAGE_VT_def)
qed

section \<open>Convexity: the iterates stay right of the root and decrease\<close>

lemma valid_params_solver:
  "valid_params p \<Longrightarrow> solver_params p"
  by (simp add: valid_params_def solver_params_def)

lemma solver_params_scale:
  assumes "solver_params p"
  shows "0 < n p * 0.026" and "0 \<le> Is p * Rs p" and "0 < Is p"
proof -
  have "0 < Is p" and "0 \<le> Rs p" and "1 \<le> n p"
    using assms by (simp_all add: solver_params_def)
  then show "0 < n p * 0.026" and "0 \<le> Is p * Rs p" and "0 < Is p"
    by simp_all
qed

lemma exp_tangent:
  fixes a x y :: real
  shows "exp (x / a) * (1 + (y - x) / a) \<le> exp (y / a)"
proof -
  have "1 + (y - x) / a \<le> exp ((y - x) / a)"
    by (rule exp_ge_add_one_self)
  then have "exp (x / a) * (1 + (y - x) / a) \<le> exp (x / a) * exp ((y - x) / a)"
    by (intro mult_left_mono) simp_all
  also have "\<dots> = exp (y / a)"
    by (simp add: exp_add [symmetric] diff_divide_distrib)
  finally show ?thesis .
qed

lemma spec_newton_df_pos:
  assumes "solver_params p"
  shows "1 \<le> spec_newton_df p x"
proof -
  have a: "0 < n p * 0.026" and c: "0 \<le> Is p * Rs p"
    using solver_params_scale [OF assms] by simp_all
  have "0 \<le> Is p * Rs p * exp (x / (n p * 0.026))"
    using c by (rule mult_nonneg_nonneg) simp
  then have "0 \<le> Is p * Rs p * exp (x / (n p * 0.026)) / (n p * 0.026)"
    using a by (rule divide_nonneg_pos)
  then show ?thesis
    by (simp add: spec_newton_df_def)
qed

lemma spec_newton_f_tangent:
  assumes "solver_params p"
  shows "spec_newton_f p V x + spec_newton_df p x * (y - x) \<le> spec_newton_f p V y"
proof -
  define a where "a = n p * 0.026"
  define c where "c = Is p * Rs p"
  have a: "0 < a" and c: "0 \<le> c"
    using solver_params_scale [OF assms] by (simp_all add: a_def c_def)
  have f: "spec_newton_f p V z = z + c * (exp (z / a) - 1) - V" for z
    unfolding spec_newton_f_def a_def c_def by (rule refl)
  have df: "spec_newton_df p z = 1 + c * exp (z / a) / a" for z
    unfolding spec_newton_df_def a_def c_def by (rule refl)
  have "c * (exp (x / a) * (1 + (y - x) / a)) \<le> c * exp (y / a)"
    using c by (intro mult_left_mono exp_tangent)
  moreover have "spec_newton_f p V x + spec_newton_df p x * (y - x)
      = y + c * (exp (x / a) * (1 + (y - x) / a)) - c - V"
    unfolding f df using a by (simp add: field_simps)
  moreover have "spec_newton_f p V y = y + c * exp (y / a) - c - V"
    unfolding f by (simp add: algebra_simps)
  ultimately show ?thesis by linarith
qed

lemma spec_newton_step_tangent:
  assumes "solver_params p"
  shows "spec_newton_f p V x + spec_newton_df p x * (spec_newton_step p V x - x) = 0"
proof -
  have "spec_newton_df p x \<noteq> 0"
    using spec_newton_df_pos [OF assms, of x] by simp
  then show ?thesis
    by (simp add: spec_newton_step_def)
qed

lemma spec_newton_f_step_nonneg:
  assumes "solver_params p"
  shows "0 \<le> spec_newton_f p V (spec_newton_step p V x)"
  using spec_newton_f_tangent [OF assms, of V x "spec_newton_step p V x"]
    spec_newton_step_tangent [OF assms, of V x]
  by simp

lemma spec_newton_step_le:
  assumes "solver_params p" and "0 \<le> spec_newton_f p V x"
  shows "spec_newton_step p V x \<le> x"
proof -
  have "0 \<le> spec_newton_f p V x / spec_newton_df p x"
    using assms(2) spec_newton_df_pos [OF assms(1), of x] by (intro divide_nonneg_pos) simp_all
  then show ?thesis
    by (simp add: spec_newton_step_def)
qed

lemma spec_newton_df_mono:
  assumes "solver_params p" and "x \<le> y"
  shows "spec_newton_df p x \<le> spec_newton_df p y"
proof -
  have a: "0 < n p * 0.026" and c: "0 \<le> Is p * Rs p"
    using solver_params_scale [OF assms(1)] by simp_all
  have "exp (x / (n p * 0.026)) \<le> exp (y / (n p * 0.026))"
    using a assms(2) by (simp add: divide_right_mono)
  then have "Is p * Rs p * exp (x / (n p * 0.026)) / (n p * 0.026)
      \<le> Is p * Rs p * exp (y / (n p * 0.026)) / (n p * 0.026)"
    using a c by (intro divide_right_mono mult_left_mono) simp_all
  then show ?thesis
    by (simp add: spec_newton_df_def)
qed

lemma spec_newton_f_strict_mono:
  assumes "solver_params p" and "x < y"
  shows "spec_newton_f p V x < spec_newton_f p V y"
proof -
  have a: "0 < n p * 0.026" and c: "0 \<le> Is p * Rs p"
    using solver_params_scale [OF assms(1)] by simp_all
  have "exp (x / (n p * 0.026)) \<le> exp (y / (n p * 0.026))"
    using a assms(2) by (simp add: divide_right_mono)
  then have "Is p * Rs p * (exp (x / (n p * 0.026)) - 1)
      \<le> Is p * Rs p * (exp (y / (n p * 0.026)) - 1)"
    using c by (intro mult_left_mono) simp_all
  then show ?thesis
    using assms(2) by (simp add: spec_newton_f_def)
qed

lemma spec_newton_step_mono_voltage:
  assumes "solver_params p" and "V1 \<le> V2"
  shows "spec_newton_step p V1 x \<le> spec_newton_step p V2 x"
proof -
  have "spec_newton_f p V2 x \<le> spec_newton_f p V1 x"
    using assms(2) by (simp add: spec_newton_f_def)
  then have "spec_newton_f p V2 x / spec_newton_df p x \<le> spec_newton_f p V1 x / spec_newton_df p x"
    using spec_newton_df_pos [OF assms(1), of x] by (intro divide_right_mono) simp_all
  then show ?thesis
    by (simp add: spec_newton_step_def)
qed

lemma spec_newton_step_mono_guess:
  assumes "solver_params p" and "x1 \<le> x2" and "0 \<le> spec_newton_f p V x1"
  shows "spec_newton_step p V x1 \<le> spec_newton_step p V x2"
proof -
  define y where "y = spec_newton_step p V x1"
  have d1: "1 \<le> spec_newton_df p x1" and d2: "1 \<le> spec_newton_df p x2"
    using spec_newton_df_pos [OF assms(1)] by simp_all
  have y: "y \<le> x1"
    unfolding y_def using assms(1,3) by (rule spec_newton_step_le)
  have t1: "spec_newton_f p V x1 = spec_newton_df p x1 * (x1 - y)"
    using spec_newton_step_tangent [OF assms(1), of V x1]
    by (simp add: y_def algebra_simps)
  have "spec_newton_f p V x2 + spec_newton_df p x2 * (x1 - x2) \<le> spec_newton_f p V x1"
    using assms(1) by (rule spec_newton_f_tangent)
  moreover have "spec_newton_df p x1 * (x1 - y) \<le> spec_newton_df p x2 * (x1 - y)"
    using y spec_newton_df_mono [OF assms(1,2)] by (intro mult_right_mono) simp_all
  ultimately have "spec_newton_f p V x2 \<le> spec_newton_df p x2 * (x2 - y)"
    unfolding t1 by (simp add: algebra_simps)
  then have "spec_newton_f p V x2 / spec_newton_df p x2 \<le> x2 - y"
    using d2 by (simp add: pos_divide_le_eq mult.commute)
  then have "y \<le> spec_newton_step p V x2"
    by (simp add: spec_newton_step_def [of p V x2])
  then show ?thesis
    by (simp only: y_def)
qed

lemma spec_newton_step_mono:
  assumes "solver_params p" and "V1 \<le> V2" and "x1 \<le> x2"
    and "0 \<le> spec_newton_f p V1 x1"
  shows "spec_newton_step p V1 x1 \<le> spec_newton_step p V2 x2"
proof (cases "0 \<le> spec_newton_f p V2 x1")
  case True
  have "spec_newton_step p V1 x1 \<le> spec_newton_step p V2 x1"
    using assms(1,2) by (rule spec_newton_step_mono_voltage)
  also have "\<dots> \<le> spec_newton_step p V2 x2"
    using assms(1,3) True by (rule spec_newton_step_mono_guess)
  finally show ?thesis .
next
  case False
  have "spec_newton_f p V2 x1 < spec_newton_f p V2 (spec_newton_step p V2 x2)"
    using False spec_newton_f_step_nonneg [OF assms(1), of V2 x2] by simp
  then have "x1 < spec_newton_step p V2 x2"
    using spec_newton_f_strict_mono [OF assms(1), of "spec_newton_step p V2 x2" x1 V2]
    by (cases "x1 < spec_newton_step p V2 x2") (auto simp: not_less le_less)
  moreover have "spec_newton_step p V1 x1 \<le> x1"
    using assms(1,4) by (rule spec_newton_step_le)
  ultimately show ?thesis by simp
qed

lemma spec_newton_f_start:
  assumes "solver_params p" and "0 \<le> V"
  shows "0 \<le> spec_newton_f p V V"
proof -
  have a: "0 < n p * 0.026" and c: "0 \<le> Is p * Rs p"
    using solver_params_scale [OF assms(1)] by simp_all
  have "0 \<le> V / (n p * 0.026)"
    using a assms(2) by (intro divide_nonneg_pos) simp_all
  then have "1 \<le> exp (V / (n p * 0.026))"
    by simp
  then have "0 \<le> exp (V / (n p * 0.026)) - 1"
    by simp
  with c have "0 \<le> Is p * Rs p * (exp (V / (n p * 0.026)) - 1)"
    by (rule mult_nonneg_nonneg)
  then show ?thesis
    by (simp add: spec_newton_f_def)
qed

lemma spec_newton_iterate_nonneg:
  assumes "solver_params p" and "0 \<le> V"
  shows "0 \<le> spec_newton_f p V (spec_newton_iterate p V k)"
proof (cases k)
  case 0
  then show ?thesis
    using spec_newton_f_start [OF assms] by (simp add: spec_newton_iterate_def)
next
  case (Suc j)
  then show ?thesis
    using spec_newton_f_step_nonneg [OF assms(1)] by (simp add: spec_newton_iterate_Suc)
qed

lemma spec_newton_iterate_decreasing:
  assumes "solver_params p" and "0 \<le> V"
  shows "spec_newton_iterate p V (Suc k) \<le> spec_newton_iterate p V k"
  unfolding spec_newton_iterate_Suc
  using assms(1) spec_newton_iterate_nonneg [OF assms] by (rule spec_newton_step_le)

lemma spec_newton_iterate_antimono:
  assumes "solver_params p" and "0 \<le> V" and "j \<le> k"
  shows "spec_newton_iterate p V k \<le> spec_newton_iterate p V j"
  using assms(3)
proof (induction k)
  case 0
  then show ?case by simp
next
  case (Suc k)
  show ?case
  proof (cases "j = Suc k")
    case True
    then show ?thesis by simp
  next
    case False
    with Suc.prems have "j \<le> k" by simp
    then have "spec_newton_iterate p V k \<le> spec_newton_iterate p V j"
      by (rule Suc.IH)
    with spec_newton_iterate_decreasing [OF assms(1,2), of k] show ?thesis
      by simp
  qed
qed

lemma spec_newton_iterate_mono_voltage:
  assumes "solver_params p" and "0 \<le> V1" and "V1 \<le> V2"
  shows "spec_newton_iterate p V1 k \<le> spec_newton_iterate p V2 k"
proof (induction k)
  case 0
  then show ?case
    using assms(3) by (simp add: spec_newton_iterate_def)
next
  case (Suc k)
  show ?case
    unfolding spec_newton_iterate_Suc
    using assms(1,3) Suc spec_newton_iterate_nonneg [OF assms(1,2)]
    by (rule spec_newton_step_mono)
qed

lemma spec_newton_deriv:
  assumes "solver_params p"
  shows "(spec_newton_f p V has_real_derivative spec_newton_df p x) (at x)"
proof -
  define a where "a = n p * 0.026"
  define c where "c = Is p * Rs p"
  have a: "0 < a"
    using solver_params_scale [OF assms] by (simp add: a_def)
  have f: "spec_newton_f p V = (\<lambda>z. z + c * (exp (z / a) - 1) - V)"
    unfolding spec_newton_f_def a_def c_def by (rule refl)
  have df: "spec_newton_df p x = 1 + c * exp (x / a) / a"
    unfolding spec_newton_df_def a_def c_def by (rule refl)
  show ?thesis
    unfolding f df using a by (auto intro!: derivative_eq_intros)
qed

lemma newton_loop_le_guess:
  assumes "solver_params p" and "0 \<le> V"
  shows "newton_loop V p 0 V \<le> V"
  unfolding newton_loop_iterations
  using spec_newton_iterate_antimono [OF assms, of 0 "newton_iterations V p 0 V"]
  by (simp add: spec_newton_iterate_def)

lemma newton_loop_lt_guess:
  assumes "solver_params p" and "0 < V" and "0 < Rs p"
  shows "newton_loop V p 0 V < V"
proof -
  have a: "0 < n p * 0.026" and Is: "0 < Is p"
    using solver_params_scale [OF assms(1)] by simp_all
  have "0 < V / (n p * 0.026)"
    using a assms(2) by (rule divide_pos_pos [rotated])
  then have "0 < exp (V / (n p * 0.026)) - 1"
    by simp
  moreover have "0 < Is p * Rs p"
    using Is assms(3) by (rule mult_pos_pos)
  ultimately have "0 < Is p * Rs p * (exp (V / (n p * 0.026)) - 1)"
    by (rule mult_pos_pos [rotated])
  then have f: "0 < spec_newton_f p V V"
    by (simp add: spec_newton_f_def)
  have "0 < spec_newton_f p V V / spec_newton_df p V"
    using f spec_newton_df_pos [OF assms(1), of V] by (intro divide_pos_pos) simp_all
  then have first: "spec_newton_iterate p V 1 < V"
    by (simp add: spec_newton_iterate_def spec_newton_step_def)
  have "1 \<le> newton_iterations V p 0 V"
    using newton_iterations_bounds by simp
  then have "spec_newton_iterate p V (newton_iterations V p 0 V) \<le> spec_newton_iterate p V 1"
    using assms(1,2) by (intro spec_newton_iterate_antimono) simp_all
  with first show ?thesis
    unfolding newton_loop_iterations by simp
qed

lemma non_ideal_below_ideal:
  assumes "solver_params p" and "0 < V" and "0 < Rs p"
  shows "calculateCurrent V p NON_IDEAL < calculateCurrent V p IDEAL"
proof -
  have a: "0 < n p * 0.026" and Is: "0 < Is p"
    using solver_params_scale [OF assms(1)] by simp_all
  have "min (newton_loop V p 0 V) V < V"
    using newton_loop_lt_guess [OF assms] by simp
  then have "min (newton_loop V p 0 V) V / (n p * 0.026) < V / (n p * 0.026)"
    using a by (rule divide_strict_right_mono)
  then have "exp (min (newton_loop V p 0 V) V / (n p * 0.026)) - 1 < exp (V / (n p * 0.026)) - 1"
    by simp
  then have "Is p * (exp (min (newton_loop V p 0 V) V / (n p * 0.026)) - 1)
      < Is p * (exp (V / (n p * 0.026)) - 1)"
    using Is by (rule mult_strict_left_mono)
  moreover have "calculateCurrent V p IDEAL = Is p * (exp (V / (n p * 0.026)) - 1)"
    using assms(2) by (simp add: calculateCurrent_def THERMAL_VOLTAGE_VT_def)
  ultimately show ?thesis
    using assms(2) by (simp only: calculateCurrent_forward [of V p] less_imp_le)
qed

lemma exp_cubic_bounds:
  fixes t :: real
  assumes "0 \<le> t" and "t \<le> 1"
  shows "1 + t + t\<^sup>2 / 2 \<le> exp t" and "exp t \<le> 1 + t + t\<^sup>2 / 2 + t ^ 3 / 2"
proof -
  show "1 + t + t\<^sup>2 / 2 \<le> exp t"
    using assms(1) by (rule exp_lower_Taylor_quadratic)
  obtain s where s: "\<bar>s\<bar> \<le> \<bar>t\<bar>"
    and e: "exp t = (\<Sum>m<3. t ^ m / fact m) + exp s / fact 3 * t ^ 3"
    using Maclaurin_exp_le [of t 3] by blast
  have "s \<le> 1"
    using s assms by simp
  then have "exp s \<le> exp 1"
    by simp
  also have "\<dots> \<le> 3"
    by (rule exp_le)
  finally have "exp s / fact 3 \<le> 1 / 2"
    by (simp add: fact_numeral)
  moreover have "0 \<le> t ^ 3"
    using assms(1) by simp
  ultimately have "exp s / fact 3 * t ^ 3 \<le> 1 / 2 * t ^ 3"
    by (rule mult_right_mono)
  moreover have "(\<Sum>m<3. t ^ m / fact m) = 1 + t + t\<^sup>2 / 2"
    by (simp add: lessThan_nat_numeral fact_numeral)
  ultimately show "exp t \<le> 1 + t + t\<^sup>2 / 2 + t ^ 3 / 2"
    using e by simp
qed

lemma newton_loop_le_step:
  assumes "solver_params p" and "0 \<le> spec_newton_f p V x" and "i < 10"
  shows "newton_loop V p i x \<le> spec_newton_step p V x"
  using assms(2,3)
proof (induction "10 - i" arbitrary: i x)
  case 0
  then show ?case by simp
next
  case (Suc d)
  show ?case
  proof (cases "\<bar>spec_newton_step p V x - x\<bar> < 1 / 10 ^ 5")
    case True
    then show ?thesis
      using Suc.prems(2) by (subst newton_loop_unfold) simp
  next
    case False
    have next_nonneg: "0 \<le> spec_newton_f p V (spec_newton_step p V x)"
      using assms(1) by (rule spec_newton_f_step_nonneg)
    have "newton_loop V p (Suc i) (spec_newton_step p V x) \<le> spec_newton_step p V x"
    proof (cases "Suc i < 10")
      case True
      with Suc.hyps(2) have "d = 10 - Suc i" by simp
      then have "newton_loop V p (Suc i) (spec_newton_step p V x)
          \<le> spec_newton_step p V (spec_newton_step p V x)"
        using next_nonneg True by (rule Suc.hyps(1))
      also have "\<dots> \<le> spec_newton_step p V x"
        using assms(1) next_nonneg by (rule spec_newton_step_le)
      finally show ?thesis .
    next
      case False
      then show ?thesis
        by (subst newton_loop_unfold) simp
    qed
    then show ?thesis
      using False Suc.prems(2) by (subst newton_loop_unfold) simp
  qed
qed

section \<open>Non-ideal mode, forward bias\<close>

text \<open>
  C1. For every voltage from 0 upwards and valid parameters, the non-ideal current is
  \<open>Is * (exp (Vd / (n * 0.026)) - 1)\<close> where \<open>Vd\<close> is the result of the
  specification's Newton-Raphson iteration (initial guess \<open>voltage\<close>, at most 10
  iterations, early exit on a step below \<open>1e-5\<close>, the tenth iterate when no step is
  that small) clamped to at most \<open>voltage\<close>. The loop body runs at most 10 times,
  \<open>df\<close> is the derivative of \<open>f\<close> and is never 0, so no step divides by zero.
\<close>

theorem non_ideal_forward_newton:
  assumes "voltage \<ge> 0" and "0 < Is p" and "1 \<le> n p" and "0 \<le> Rs p"
  shows "calculateCurrent voltage p NON_IDEAL
           = Is p * (exp (min (spec_newton_solve p voltage) voltage / (n p * 0.026)) - 1)
         \<and> newton_iterations voltage p 0 voltage \<le> 10
         \<and> (\<forall>Vd. (spec_newton_f p voltage has_real_derivative spec_newton_df p Vd) (at Vd))
         \<and> (\<forall>Vd. spec_newton_df p Vd \<noteq> 0)"
proof (intro conjI allI)
  have solver: "solver_params p"
    using assms(2-4) by (simp add: solver_params_def)
  show "calculateCurrent voltage p NON_IDEAL
           = Is p * (exp (min (spec_newton_solve p voltage) voltage / (n p * 0.026)) - 1)"
    using assms(1) by (simp only: calculateCurrent_forward newton_loop_solve)
  show "newton_iterations voltage p 0 voltage \<le> 10"
    using newton_iterations_bounds by simp
  show "(spec_newton_f p voltage has_real_derivative spec_newton_df p Vd) (at Vd)" for Vd
    using solver by (rule spec_newton_deriv)
  show "spec_newton_df p Vd \<noteq> 0" for Vd
    using spec_newton_df_pos [OF solver, of Vd] by simp
qed

theorem non_ideal_forward_newton_witness:
  "(0 :: real) \<ge> 0 \<and> 0 < Is (getDiodeParams MODERATE) \<and> 1 \<le> n (getDiodeParams MODERATE)
   \<and> 0 \<le> Rs (getDiodeParams MODERATE)
   \<and> spec_newton_solve (getDiodeParams MODERATE) 0 = 0
   \<and> calculateCurrent 0 (getDiodeParams MODERATE) NON_IDEAL = 0"
proof -
  have it: "spec_newton_iterate (getDiodeParams MODERATE) 0 (Suc 0) = 0"
    by (simp add: spec_newton_iterate_def spec_newton_step_def spec_newton_f_def)
  have "[0..<10] = 0 # [Suc 0..<10]"
    by (simp add: upt_conv_Cons)
  then have solve: "spec_newton_solve (getDiodeParams MODERATE) 0 = 0"
    using it by (simp add: spec_newton_solve_def spec_newton_iterate_def)
  have params: "0 < Is (getDiodeParams MODERATE)" "1 \<le> n (getDiodeParams MODERATE)"
    "0 \<le> Rs (getDiodeParams MODERATE)"
    by (simp_all add: getDiodeParams_def)
  show ?thesis
    using non_ideal_forward_newton [OF order_refl params] solve params by simp
qed

text \<open>
  C8. With the Moderate parameters \<open>{Is=1e-11, n=1.2, Vbi=0.70, Rs=10,
  breakdownVoltage=-20}\<close>, the non-ideal current at 0.7 V is strictly less than the
  ideal current at 0.7 V, and the ideal current is
  \<open>1e-11 * (exp (0.7 / (1.2 * 0.026)) - 1)\<close>.
\<close>

theorem moderate_resistance_limits_current:
  "getDiodeParams MODERATE
     = \<lparr>Is = 1 / 10 ^ 11, n = 1.2, Vbi = 0.70, Rs = 10, breakdownVoltage = - 20\<rparr>
   \<and> calculateCurrent 0.7 (getDiodeParams MODERATE) NON_IDEAL
       < calculateCurrent 0.7 (getDiodeParams MODERATE) IDEAL
   \<and> calculateCurrent 0.7 (getDiodeParams MODERATE) IDEAL
       = 1 / 10 ^ 11 * (exp (0.7 / (1.2 * 0.026)) - 1)"
proof (intro conjI)
  show "getDiodeParams MODERATE
     = \<lparr>Is = 1 / 10 ^ 11, n = 1.2, Vbi = 0.70, Rs = 10, breakdownVoltage = - 20\<rparr>"
    by (simp add: getDiodeParams_def)
  show "calculateCurrent 0.7 (getDiodeParams MODERATE) NON_IDEAL
       < calculateCurrent 0.7 (getDiodeParams MODERATE) IDEAL"
    by (rule non_ideal_below_ideal)
      (simp_all add: valid_params_presets valid_params_solver, simp add: getDiodeParams_def)
  show "calculateCurrent 0.7 (getDiodeParams MODERATE) IDEAL
       = 1 / 10 ^ 11 * (exp (0.7 / (1.2 * 0.026)) - 1)"
    by (simp add: calculateCurrent_def getDiodeParams_def THERMAL_VOLTAGE_VT_def)
qed

section \<open>Monotonicity of the forward solve\<close>

text \<open>
  The early exit makes the forward current jump downwards where it starts to miss. A
  voltage \<open>v1\<close> whose first Newton step is shorter than \<open>1e-5\<close> leaves the loop after
  that step. A voltage \<open>v2\<close> whose first step is at least \<open>1e-5\<close> long takes a second
  step or more, and ends at or below the Newton step from \<open>v2 - 1e-5\<close>. Where that
  is below the first step from \<open>v1\<close>, the current at \<open>v2\<close> is the smaller one.
\<close>

lemma early_exit_jump:
  assumes "solver_params p" and "0 \<le> v1"
    and exit1: "\<bar>spec_newton_step p v1 v1 - v1\<bar> < 1 / 10 ^ 5"
    and first2: "spec_newton_step p v2 v2 \<le> v2 - 1 / 10 ^ 5"
    and second2: "spec_newton_step p v2 (v2 - 1 / 10 ^ 5) < spec_newton_step p v1 v1"
    and "0 \<le> v2"
  shows "calculateCurrent v2 p NON_IDEAL < calculateCurrent v1 p NON_IDEAL"
proof -
  note solver = assms(1)
  have a: "0 < n p * 0.026" and Is: "0 < Is p"
    using solver_params_scale [OF solver] by simp_all
  have low: "newton_loop v1 p 0 v1 = spec_newton_step p v1 v1"
    using exit1 by (subst newton_loop_unfold) simp
  have "\<not> \<bar>spec_newton_step p v2 v2 - v2\<bar> < 1 / 10 ^ 5"
    using first2 by simp
  then have "newton_loop v2 p 0 v2 = newton_loop v2 p 1 (spec_newton_step p v2 v2)"
    by (subst newton_loop_unfold) simp
  also have "\<dots> \<le> spec_newton_step p v2 (spec_newton_step p v2 v2)"
    using solver by (rule newton_loop_le_step) (rule spec_newton_f_step_nonneg [OF solver], simp)
  also have "\<dots> \<le> spec_newton_step p v2 (v2 - 1 / 10 ^ 5)"
    using solver first2
    by (rule spec_newton_step_mono_guess) (rule spec_newton_f_step_nonneg [OF solver])
  also have "\<dots> < newton_loop v1 p 0 v1"
    unfolding low by (rule second2)
  finally have "newton_loop v2 p 0 v2 < newton_loop v1 p 0 v1" .
  moreover have "newton_loop v1 p 0 v1 \<le> v1"
    using solver assms(2) by (rule newton_loop_le_guess)
  ultimately have "min (newton_loop v2 p 0 v2) v2 < min (newton_loop v1 p 0 v1) v1"
    by simp
  then have "min (newton_loop v2 p 0 v2) v2 / (n p * 0.026)
      < min (newton_loop v1 p 0 v1) v1 / (n p * 0.026)"
    using a by (rule divide_strict_right_mono)
  then have "exp (min (newton_loop v2 p 0 v2) v2 / (n p * 0.026)) - 1
      < exp (min (newton_loop v1 p 0 v1) v1 / (n p * 0.026)) - 1"
    by simp
  then have "Is p * (exp (min (newton_loop v2 p 0 v2) v2 / (n p * 0.026)) - 1)
      < Is p * (exp (min (newton_loop v1 p 0 v1) v1 / (n p * 0.026)) - 1)"
    using Is by (rule mult_strict_left_mono)
  then show ?thesis
    by (simp only: calculateCurrent_forward [OF assms(2)] calculateCurrent_forward [OF assms(6)])
qed

text \<open>
  With \<open>Is = 1\<close>, \<open>n = 1\<close>, \<open>Rs = 100\<close>: at 10 microvolts the first Newton step is
  shorter than \<open>1e-5\<close> and \<open>Vd\<close> stays above \<open>3e-9\<close>; at 11 microvolts the first
  step is not shorter than \<open>1e-5\<close>, and the second step ends below \<open>3e-9\<close>.
\<close>

lemma jump_params_valid: "valid_params jump_params"
  by (simp add: valid_params_def jump_params_def)

lemma jump_params_solver: "solver_params jump_params"
  using jump_params_valid by (rule valid_params_solver)

lemma jump_f: "spec_newton_f jump_params V x = x + 100 * (exp (x * 500 / 13) - 1) - V"
  by (simp add: spec_newton_f_def jump_params_def)

lemma jump_df: "spec_newton_df jump_params x = 1 + exp (x * 500 / 13) * 50000 / 13"
  by (simp add: spec_newton_df_def jump_params_def)

lemma jump_low_first_step:
  "3 / 10 ^ 9 < spec_newton_step jump_params (1 / 10 ^ 5) (1 / 10 ^ 5)"
proof -
  define E where "E = exp (1 / 2600 :: real)"
  define Q where "Q = 100 * (E - 1) / (1 + E * 50000 / 13)"
  have hi: "E \<le> 1 + 1 / 2600 + (1 / 2600)\<^sup>2 / 2 + (1 / 2600) ^ 3 / 2"
    unfolding E_def by (rule exp_cubic_bounds) simp_all
  have pos: "0 < 1 + E * 50000 / 13"
    using exp_gt_zero [of "1 / 2600 :: real"] by (simp add: E_def add_pos_pos)
  have "100 * (E - 1) < (1 / 10 ^ 5 - 3 / 10 ^ 9) * (1 + E * 50000 / 13)"
    using hi by (simp add: power_divide)
  then have "100 * (E - 1) / (1 + E * 50000 / 13) < 1 / 10 ^ 5 - 3 / 10 ^ 9"
    using pos by (simp only: pos_divide_less_eq)
  then have "Q < 1 / 10 ^ 5 - 3 / 10 ^ 9"
    by (simp only: Q_def)
  moreover have "spec_newton_step jump_params (1 / 10 ^ 5) (1 / 10 ^ 5) = 1 / 10 ^ 5 - Q"
    by (simp add: spec_newton_step_def jump_f jump_df E_def Q_def)
  ultimately show ?thesis by simp
qed

lemma jump_low_exit:
  "\<bar>spec_newton_step jump_params (1 / 10 ^ 5) (1 / 10 ^ 5) - 1 / 10 ^ 5\<bar> < 1 / 10 ^ 5"
proof -
  have "spec_newton_step jump_params (1 / 10 ^ 5) (1 / 10 ^ 5) \<le> 1 / 10 ^ 5"
    using jump_params_solver
    by (rule spec_newton_step_le) (rule spec_newton_f_start, simp_all add: jump_params_solver)
  with jump_low_first_step show ?thesis by simp
qed

lemma jump_high_first_step:
  "spec_newton_step jump_params (11 / 10 ^ 6) (11 / 10 ^ 6) \<le> 1 / 10 ^ 6"
proof -
  define E where "E = exp (11 / 26000 :: real)"
  define Q where "Q = 100 * (E - 1) / (1 + E * 50000 / 13)"
  have lo: "1 + 11 / 26000 + (11 / 26000)\<^sup>2 / 2 \<le> E"
    unfolding E_def by (rule exp_cubic_bounds) simp_all
  have pos: "0 < 1 + E * 50000 / 13"
    using exp_gt_zero [of "11 / 26000 :: real"] by (simp add: E_def add_pos_pos)
  have "1 / 10 ^ 5 * (1 + E * 50000 / 13) \<le> 100 * (E - 1)"
    using lo by (simp add: power_divide)
  then have "1 / 10 ^ 5 \<le> 100 * (E - 1) / (1 + E * 50000 / 13)"
    using pos by (simp only: pos_le_divide_eq)
  then have "1 / 10 ^ 5 \<le> Q"
    by (simp only: Q_def)
  moreover have "spec_newton_step jump_params (11 / 10 ^ 6) (11 / 10 ^ 6) = 11 / 10 ^ 6 - Q"
    by (simp add: spec_newton_step_def jump_f jump_df E_def Q_def)
  ultimately show ?thesis by simp
qed

lemma jump_high_second_step:
  "spec_newton_step jump_params (11 / 10 ^ 6) (1 / 10 ^ 6) < 3 / 10 ^ 9"
proof -
  define E where "E = exp (1 / 26000 :: real)"
  define Q where "Q = (1 / 10 ^ 6 + 100 * (E - 1) - 11 / 10 ^ 6) / (1 + E * 50000 / 13)"
  have lo: "1 + 1 / 26000 + (1 / 26000)\<^sup>2 / 2 \<le> E"
    unfolding E_def by (rule exp_cubic_bounds) simp_all
  have pos: "0 < 1 + E * 50000 / 13"
    using exp_gt_zero [of "1 / 26000 :: real"] by (simp add: E_def add_pos_pos)
  have "(1 / 10 ^ 6 - 3 / 10 ^ 9) * (1 + E * 50000 / 13)
      < 1 / 10 ^ 6 + 100 * (E - 1) - 11 / 10 ^ 6"
    using lo by (simp add: power_divide)
  then have "1 / 10 ^ 6 - 3 / 10 ^ 9
      < (1 / 10 ^ 6 + 100 * (E - 1) - 11 / 10 ^ 6) / (1 + E * 50000 / 13)"
    using pos by (simp only: pos_less_divide_eq)
  then have "1 / 10 ^ 6 - 3 / 10 ^ 9 < Q"
    by (simp only: Q_def)
  moreover have "spec_newton_step jump_params (11 / 10 ^ 6) (1 / 10 ^ 6) = 1 / 10 ^ 6 - Q"
    by (simp add: spec_newton_step_def jump_f jump_df E_def Q_def)
  ultimately show ?thesis by simp
qed

text \<open>
  C7, as stated, fails: for the valid parameters \<open>Is = 1\<close>, \<open>n = 1\<close>, \<open>Rs = 100\<close> the
  non-ideal current at \<open>0.000011\<close> V is strictly less than at \<open>0.00001\<close> V.
\<close>

theorem non_ideal_forward_not_monotone:
  "valid_params \<lparr>Is = 1, n = 1, Vbi = 0.7, Rs = 100, breakdownVoltage = - 20\<rparr>
   \<and> (0 :: real) \<le> 0.00001 \<and> (0.00001 :: real) \<le> 0.000011
   \<and> calculateCurrent 0.000011
         \<lparr>Is = 1, n = 1, Vbi = 0.7, Rs = 100, breakdownVoltage = - 20\<rparr> NON_IDEAL
       < calculateCurrent 0.00001
         \<lparr>Is = 1, n = 1, Vbi = 0.7, Rs = 100, breakdownVoltage = - 20\<rparr> NON_IDEAL"
proof -
  have "spec_newton_step jump_params (11 / 10 ^ 6) (11 / 10 ^ 6 - 1 / 10 ^ 5) < 3 / 10 ^ 9"
    using jump_high_second_step by simp
  also have "\<dots> < spec_newton_step jump_params (1 / 10 ^ 5) (1 / 10 ^ 5)"
    by (rule jump_low_first_step)
  finally have "calculateCurrent (11 / 10 ^ 6) jump_params NON_IDEAL
      < calculateCurrent (1 / 10 ^ 5) jump_params NON_IDEAL"
    using jump_params_solver _ jump_low_exit jump_high_first_step
    by (intro early_exit_jump) simp_all
  then show ?thesis
    using jump_params_valid by (simp add: jump_params_def)
qed

subsection \<open>The same jump with the Moderate preset\<close>

text \<open>
  With the parameters of \<open>getDiodeParams MODERATE\<close> the first Newton step is \<open>1e-5\<close>
  long near 0.35921358811 V. Below, the exponential at \<open>0.3592135881085 / 0.0312\<close> is
  enclosed from a Taylor polynomial at \<open>1/1024\<close> of the argument and ten squarings;
  the enclosure decides the exit test at 0.3592135881082 V and at 0.3592135881085 V.
\<close>

lemma exp_taylor_bounds:
  fixes y :: real
  assumes "0 \<le> y" and "y \<le> 1"
  shows "1 + y + y\<^sup>2 / 2 + y ^ 3 / 6 + y ^ 4 / 24 + y ^ 5 / 120 + y ^ 6 / 720 \<le> exp y"
    and "exp y \<le> 1 + y + y\<^sup>2 / 2 + y ^ 3 / 6 + y ^ 4 / 24 + y ^ 5 / 120 + y ^ 6 / 720
                  + y ^ 7 / 1680"
proof -
  obtain s where s: "\<bar>s\<bar> \<le> \<bar>y\<bar>"
    and e: "exp y = (\<Sum>m<7. y ^ m / fact m) + exp s / fact 7 * y ^ 7"
    using Maclaurin_exp_le [of y 7] by blast
  have poly: "(\<Sum>m<7. y ^ m / fact m)
      = 1 + y + y\<^sup>2 / 2 + y ^ 3 / 6 + y ^ 4 / 24 + y ^ 5 / 120 + y ^ 6 / 720"
    by (simp add: lessThan_nat_numeral fact_numeral)
  have y7: "0 \<le> y ^ 7"
    using assms(1) by simp
  have "0 \<le> exp s / fact 7 * y ^ 7"
    using y7 by (intro mult_nonneg_nonneg) simp_all
  then show "1 + y + y\<^sup>2 / 2 + y ^ 3 / 6 + y ^ 4 / 24 + y ^ 5 / 120 + y ^ 6 / 720 \<le> exp y"
    using e poly by simp
  have "s \<le> 1"
    using s assms by simp
  then have "exp s \<le> exp 1"
    by simp
  also have "\<dots> \<le> 3"
    by (rule exp_le)
  finally have "exp s / fact 7 \<le> 1 / 1680"
    by (simp add: fact_numeral)
  then have "exp s / fact 7 * y ^ 7 \<le> 1 / 1680 * y ^ 7"
    using y7 by (rule mult_right_mono)
  then show "exp y \<le> 1 + y + y\<^sup>2 / 2 + y ^ 3 / 6 + y ^ 4 / 24 + y ^ 5 / 120 + y ^ 6 / 720
                  + y ^ 7 / 1680"
    using e poly by simp
qed

lemma exp_double_lower:
  fixes w :: real
  assumes "0 \<le> l" and "l \<le> exp w" and "l' \<le> l * l"
  shows "l' \<le> exp (2 * w)"
proof -
  have "l * l \<le> exp w * exp w"
    using assms(1,2) by (intro mult_mono) simp_all
  also have "\<dots> = exp (2 * w)"
    by (simp add: exp_add [symmetric])
  finally show ?thesis
    using assms(3) by simp
qed

lemma exp_double_upper:
  fixes w :: real
  assumes "exp w \<le> h" and "h * h \<le> h'"
  shows "exp (2 * w) \<le> h'"
proof -
  have "exp (2 * w) = exp w * exp w"
    by (simp add: exp_add [symmetric])
  also have "\<dots> \<le> h * h"
    using assms(1) order_trans [OF exp_ge_zero assms(1)] by (intro mult_mono) simp_all
  finally show ?thesis
    using assms(2) by simp
qed

lemma moderate_threshold_exp:
  "100033.06187907056063150859 \<le> exp (0.3592135881085 / (1.2 * 0.026) :: real)"
  "exp (0.3592135881085 / (1.2 * 0.026) :: real) \<le> 100033.06187907193179806365"
proof -
  define y :: real where "y = 718427176217 / 63897600000000"
  have y: "0 \<le> y" "y \<le> 1"
    by (simp_all add: y_def)
  have "1.01130685882667117504 \<le> 1 + y + y\<^sup>2 / 2 + y ^ 3 / 6 + y ^ 4 / 24 + y ^ 5 / 120 + y ^ 6 / 720"
    by (simp add: y_def power_divide)
  then have l0: "1.01130685882667117504 \<le> exp y"
    using exp_taylor_bounds(1) [OF y] by (rule order_trans)
  have "1 + y + y\<^sup>2 / 2 + y ^ 3 / 6 + y ^ 4 / 24 + y ^ 5 / 120 + y ^ 6 / 720 + y ^ 7 / 1680
      \<le> 1.01130685882667118857"
    by (simp add: y_def power_divide)
  with exp_taylor_bounds(2) [OF y] have h0: "exp y \<le> 1.01130685882667118857"
    by (rule order_trans)
  have l1: "1.02274156270986862194 \<le> exp (2 * y)"
    by (rule exp_double_lower [OF _ l0]) simp_all
  have h1: "exp (2 * y) \<le> 1.02274156270986864931"
    by (rule exp_double_upper [OF h0]) simp
  have l2: "1.04600030409422413093 \<le> exp (2 * (2 * y))"
    by (rule exp_double_lower [OF _ l1]) simp_all
  have h2: "exp (2 * (2 * y)) \<le> 1.04600030409422418693"
    by (rule exp_double_upper [OF h1]) simp
  have l3: "1.0941166361652093552 \<le> exp (2 * (2 * (2 * y)))"
    by (rule exp_double_lower [OF _ l2]) simp_all
  have h3: "exp (2 * (2 * (2 * y))) \<le> 1.09411663616520947236"
    by (rule exp_double_upper [OF h2]) simp
  have l4: "1.19709121353347310392 \<le> exp (2 * (2 * (2 * (2 * y))))"
    by (rule exp_double_lower [OF _ l3]) simp_all
  have h4: "exp (2 * (2 * (2 * (2 * y)))) \<le> 1.1970912135334733603"
    by (rule exp_double_upper [OF h3]) simp
  have l5: "1.43302737351904329943 \<le> exp (2 * (2 * (2 * (2 * (2 * y)))))"
    by (rule exp_double_lower [OF _ l4]) simp_all
  have h5: "exp (2 * (2 * (2 * (2 * (2 * y))))) \<le> 1.43302737351904391326"
    by (rule exp_double_upper [OF h4]) simp
  have l6: "2.05356745325488764098 \<le> exp (2 * (2 * (2 * (2 * (2 * (2 * y))))))"
    by (rule exp_double_lower [OF _ l5]) simp_all
  have h6: "exp (2 * (2 * (2 * (2 * (2 * (2 * y)))))) \<le> 2.05356745325488940026"
    by (rule exp_double_upper [OF h5]) simp
  have l7: "4.21713928506776513644 \<le> exp (2 * (2 * (2 * (2 * (2 * (2 * (2 * y)))))))"
    by (rule exp_double_lower [OF _ l6]) simp_all
  have h7: "exp (2 * (2 * (2 * (2 * (2 * (2 * (2 * y))))))) \<le> 4.21713928506777236205"
    by (rule exp_double_upper [OF h6]) simp
  have l8: "17.78426374966186126307 \<le> exp (2 * (2 * (2 * (2 * (2 * (2 * (2 * (2 * y))))))))"
    by (rule exp_double_lower [OF _ l7]) simp_all
  have h8: "exp (2 * (2 * (2 * (2 * (2 * (2 * (2 * (2 * y)))))))) \<le> 17.78426374966192220589"
    by (rule exp_double_upper [OF h7]) simp
  have l9: "316.2800371175369655368 \<le> exp (2 * (2 * (2 * (2 * (2 * (2 * (2 * (2 * (2 * y)))))))))"
    by (rule exp_double_lower [OF _ l8]) simp_all
  have h9: "exp (2 * (2 * (2 * (2 * (2 * (2 * (2 * (2 * (2 * y))))))))) \<le> 316.28003711753913318318"
    by (rule exp_double_upper [OF h8]) simp
  have l10: "100033.06187907056063150859 \<le> exp (2 * (2 * (2 * (2 * (2 * (2 * (2 * (2 * (2 * (2 * y))))))))))"
    by (rule exp_double_lower [OF _ l9]) simp_all
  have h10: "exp (2 * (2 * (2 * (2 * (2 * (2 * (2 * (2 * (2 * (2 * y)))))))))) \<le> 100033.06187907193179806365"
    by (rule exp_double_upper [OF h9]) simp
  have arg: "2 * (2 * (2 * (2 * (2 * (2 * (2 * (2 * (2 * (2 * y))))))))) = (0.3592135881085 / (1.2 * 0.026) :: real)"
    by (simp add: y_def)
  show "100033.06187907056063150859 \<le> exp (0.3592135881085 / (1.2 * 0.026) :: real)"
    using l10 unfolding arg .
  show "exp (0.3592135881085 / (1.2 * 0.026) :: real) \<le> 100033.06187907193179806365"
    using h10 unfolding arg .
qed

lemma moderate_f:
  "spec_newton_f (getDiodeParams MODERATE) V x
     = x + 1 / 10 ^ 10 * (exp (x / (1.2 * 0.026)) - 1) - V"
  by (simp add: spec_newton_f_def getDiodeParams_def)

lemma moderate_df:
  "spec_newton_df (getDiodeParams MODERATE) x
     = 1 + 1 / 10 ^ 10 * exp (x / (1.2 * 0.026)) / (1.2 * 0.026)"
  by (simp add: spec_newton_df_def getDiodeParams_def)

lemma moderate_low_exit:
  "\<bar>spec_newton_step (getDiodeParams MODERATE) 0.3592135881082 0.3592135881082
      - 0.3592135881082\<bar> < 1 / 10 ^ 5"
proof -
  define E where "E = exp (0.3592135881082 / (1.2 * 0.026) :: real)"
  define E2 where "E2 = exp (0.3592135881085 / (1.2 * 0.026) :: real)"
  define t :: real where "t = 0.0000000000003 / (1.2 * 0.026)"
  define Q where "Q = 1 / 10 ^ 10 * (E - 1) / (1 + 1 / 10 ^ 10 * E / (1.2 * 0.026))"
  have E: "1 \<le> E"
    by (simp add: E_def)
  have "E * exp t = E2"
    unfolding E_def E2_def t_def by (simp add: exp_add [symmetric])
  moreover have "E * (1 + t) \<le> E * exp t"
    using E by (intro mult_left_mono) simp_all
  moreover have "E2 \<le> 100033.06187907193179806365"
    unfolding E2_def by (rule moderate_threshold_exp)
  ultimately have "E * (1 + t) \<le> 100033.06187907193179806365"
    by simp
  then have hi: "E < 100033.0618788"
    by (simp add: t_def)
  have pos: "0 < 1 + 1 / 10 ^ 10 * E / (1.2 * 0.026)"
    using E by (simp add: add_pos_nonneg)
  have "1 / 10 ^ 10 * (E - 1) < 1 / 10 ^ 5 * (1 + 1 / 10 ^ 10 * E / (1.2 * 0.026))"
    using hi by simp
  then have "Q < 1 / 10 ^ 5"
    unfolding Q_def using pos by (simp only: pos_divide_less_eq)
  moreover have "0 \<le> Q"
    unfolding Q_def using E pos by (intro divide_nonneg_pos mult_nonneg_nonneg) simp_all
  moreover have "spec_newton_step (getDiodeParams MODERATE) 0.3592135881082 0.3592135881082
      = 0.3592135881082 - Q"
    by (simp add: spec_newton_step_def moderate_f moderate_df E_def Q_def)
  ultimately show ?thesis by simp
qed

lemma moderate_high_first_step:
  "spec_newton_step (getDiodeParams MODERATE) 0.3592135881085 0.3592135881085
     \<le> 0.3592135881085 - 1 / 10 ^ 5"
proof -
  define E where "E = exp (0.3592135881085 / (1.2 * 0.026) :: real)"
  define Q where "Q = 1 / 10 ^ 10 * (E - 1) / (1 + 1 / 10 ^ 10 * E / (1.2 * 0.026))"
  have lo: "100033.06187907056063150859 \<le> E"
    unfolding E_def by (rule moderate_threshold_exp)
  have pos: "0 < 1 + 1 / 10 ^ 10 * E / (1.2 * 0.026)"
    using lo by (simp add: add_pos_nonneg)
  have "1 / 10 ^ 5 * (1 + 1 / 10 ^ 10 * E / (1.2 * 0.026)) \<le> 1 / 10 ^ 10 * (E - 1)"
    using lo by simp
  then have "1 / 10 ^ 5 \<le> Q"
    unfolding Q_def using pos by (simp only: pos_le_divide_eq)
  moreover have "spec_newton_step (getDiodeParams MODERATE) 0.3592135881085 0.3592135881085
      = 0.3592135881085 - Q"
    by (simp add: spec_newton_step_def moderate_f moderate_df E_def Q_def)
  ultimately show ?thesis by simp
qed

lemma moderate_high_second_step:
  "spec_newton_step (getDiodeParams MODERATE) 0.3592135881085 (0.3592135881085 - 1 / 10 ^ 5)
     < 0.3592135881082 - 1 / 10 ^ 5"
proof -
  define E where "E = exp ((0.3592135881085 - 1 / 10 ^ 5) / (1.2 * 0.026) :: real)"
  define E2 where "E2 = exp (0.3592135881085 / (1.2 * 0.026) :: real)"
  define u :: real where "u = 1 / 10 ^ 5 / (1.2 * 0.026)"
  define Q where "Q = (1 / 10 ^ 10 * (E - 1) - 1 / 10 ^ 5)
                        / (1 + 1 / 10 ^ 10 * E / (1.2 * 0.026))"
  have E: "0 < E"
    by (simp add: E_def)
  have u: "0 \<le> u" "u \<le> 1"
    by (simp_all add: u_def)
  have "E * exp u = E2"
    unfolding E_def E2_def u_def by (simp add: exp_add [symmetric])
  moreover have "E * exp u \<le> E * (1 + u + u\<^sup>2 / 2 + u ^ 3 / 2)"
    using E exp_cubic_bounds(2) [OF u] by (intro mult_left_mono) simp_all
  moreover have "100033.06187907056063150859 \<le> E2"
    unfolding E2_def by (rule moderate_threshold_exp)
  ultimately have "100033.06187907056063150859 \<le> E * (1 + u + u\<^sup>2 / 2 + u ^ 3 / 2)"
    by simp
  then have lo: "100001.0051 < E"
    by (simp add: u_def power_divide)
  have pos: "0 < 1 + 1 / 10 ^ 10 * E / (1.2 * 0.026)"
    using E by (simp add: add_pos_nonneg)
  have "3 / 10 ^ 13 * (1 + 1 / 10 ^ 10 * E / (1.2 * 0.026))
      < 1 / 10 ^ 10 * (E - 1) - 1 / 10 ^ 5"
    using lo by simp
  then have "3 / 10 ^ 13 < Q"
    unfolding Q_def using pos by (simp only: pos_less_divide_eq)
  moreover have "spec_newton_step (getDiodeParams MODERATE) 0.3592135881085
        (0.3592135881085 - 1 / 10 ^ 5)
      = 0.3592135881085 - 1 / 10 ^ 5 - Q"
    by (simp add: spec_newton_step_def moderate_f moderate_df E_def Q_def)
  ultimately show ?thesis by simp
qed

lemma moderate_preset_jump:
  "calculateCurrent 0.3592135881085 (getDiodeParams MODERATE) NON_IDEAL
     < calculateCurrent 0.3592135881082 (getDiodeParams MODERATE) NON_IDEAL"
proof (rule early_exit_jump)
  show "solver_params (getDiodeParams MODERATE)"
    using valid_params_presets by (rule valid_params_solver)
  show "\<bar>spec_newton_step (getDiodeParams MODERATE) 0.3592135881082 0.3592135881082
      - 0.3592135881082\<bar> < 1 / 10 ^ 5"
    by (rule moderate_low_exit)
  then have "0.3592135881082 - 1 / 10 ^ 5
      < spec_newton_step (getDiodeParams MODERATE) 0.3592135881082 0.3592135881082"
    by (simp only: abs_diff_less_iff)
  with moderate_high_second_step
  show "spec_newton_step (getDiodeParams MODERATE) 0.3592135881085 (0.3592135881085 - 1 / 10 ^ 5)
      < spec_newton_step (getDiodeParams MODERATE) 0.3592135881082 0.3592135881082"
    by (rule less_trans)
  show "spec_newton_step (getDiodeParams MODERATE) 0.3592135881085 0.3592135881085
     \<le> 0.3592135881085 - 1 / 10 ^ 5"
    by (rule moderate_high_first_step)
qed simp_all

text \<open>
  C7, amended. For valid parameters and \<open>0 \<le> v1 \<le> v2\<close> whose Newton-Raphson loops
  run the same number of iterations, the non-ideal current at \<open>v1\<close> is at most the
  non-ideal current at \<open>v2\<close>.
\<close>

theorem non_ideal_forward_monotone_same_iterations:
  assumes "valid_params p" and "0 \<le> v1" and "v1 \<le> v2"
    and "newton_iterations v1 p 0 v1 = newton_iterations v2 p 0 v2"
  shows "calculateCurrent v1 p NON_IDEAL \<le> calculateCurrent v2 p NON_IDEAL"
proof -
  have solver: "solver_params p"
    using assms(1) by (rule valid_params_solver)
  have a: "0 < n p * 0.026" and Is: "0 < Is p"
    using solver_params_scale [OF solver] by simp_all
  have v2: "0 \<le> v2"
    using assms(2,3) by simp
  have "newton_loop v1 p 0 v1 \<le> newton_loop v2 p 0 v2"
    unfolding newton_loop_iterations assms(4)
    using solver assms(2,3) by (rule spec_newton_iterate_mono_voltage)
  then have "min (newton_loop v1 p 0 v1) v1 \<le> min (newton_loop v2 p 0 v2) v2"
    using assms(3) by (rule min.mono)
  then have "min (newton_loop v1 p 0 v1) v1 / (n p * 0.026)
      \<le> min (newton_loop v2 p 0 v2) v2 / (n p * 0.026)"
    using a by (intro divide_right_mono) simp_all
  then have "exp (min (newton_loop v1 p 0 v1) v1 / (n p * 0.026)) - 1
      \<le> exp (min (newton_loop v2 p 0 v2) v2 / (n p * 0.026)) - 1"
    by simp
  then have "Is p * (exp (min (newton_loop v1 p 0 v1) v1 / (n p * 0.026)) - 1)
      \<le> Is p * (exp (min (newton_loop v2 p 0 v2) v2 / (n p * 0.026)) - 1)"
    using Is by (intro mult_left_mono) simp_all
  then show ?thesis
    by (simp only: calculateCurrent_forward [OF assms(2)] calculateCurrent_forward [OF v2])
qed

theorem non_ideal_forward_monotone_same_iterations_witness:
  "valid_params (getDiodeParams MODERATE) \<and> (0 :: real) \<le> 0 \<and> (0 :: real) \<le> 0.0312
   \<and> newton_iterations 0 (getDiodeParams MODERATE) 0 0
       = newton_iterations 0.0312 (getDiodeParams MODERATE) 0 0.0312
   \<and> calculateCurrent 0 (getDiodeParams MODERATE) NON_IDEAL
       \<le> calculateCurrent 0.0312 (getDiodeParams MODERATE) NON_IDEAL"
proof -
  let ?p = "getDiodeParams MODERATE"
  have valid: "valid_params ?p"
    by (rule valid_params_presets)
  have zero: "newton_iterations 0 ?p 0 0 = 1"
    by (rule newton_first_exit) (simp add: spec_newton_step_def spec_newton_f_def)
  have "exp (1 :: real) \<le> 3"
    by (rule exp_le)
  then have f: "spec_newton_f ?p 0.0312 0.0312 \<le> 2 / 10 ^ 10"
    by (simp add: spec_newton_f_def getDiodeParams_def)
  have solver: "solver_params ?p"
    using valid by (rule valid_params_solver)
  have f0: "0 \<le> spec_newton_f ?p 0.0312 0.0312"
    using solver by (rule spec_newton_f_start) simp
  have df: "1 \<le> spec_newton_df ?p 0.0312"
    using solver by (rule spec_newton_df_pos)
  have "spec_newton_f ?p 0.0312 0.0312 / spec_newton_df ?p 0.0312
      \<le> spec_newton_f ?p 0.0312 0.0312 / 1"
    using f0 df by (intro divide_left_mono) simp_all
  then have "\<bar>spec_newton_step ?p 0.0312 0.0312 - 0.0312\<bar> \<le> 2 / 10 ^ 10"
    using f f0 df by (simp add: spec_newton_step_def)
  then have "\<bar>spec_newton_step ?p 0.0312 0.0312 - 0.0312\<bar> < 1 / 10 ^ 5"
    by simp
  then have pos: "newton_iterations 0.0312 ?p 0 0.0312 = 1"
    by (rule newton_first_exit)
  have eq: "newton_iterations 0 ?p 0 0 = newton_iterations 0.0312 ?p 0 0.0312"
    by (simp only: zero pos)
  have "calculateCurrent 0 ?p NON_IDEAL \<le> calculateCurrent 0.0312 ?p NON_IDEAL"
    using valid _ _ eq by (rule non_ideal_forward_monotone_same_iterations) simp_all
  with valid eq show ?thesis by simp
qed

section \<open>Range of the outputs\<close>

text \<open>
  A value of the model that is larger in magnitude than \<open>Number.MAX_VALUE\<close> is one that
  the code cannot return as a finite double. On the range of the voltage slider the
  exponent \<open>voltage / (n * 0.026)\<close> is at most 193 and nothing comes near that bound;
  at larger voltages the exponential passes it.
\<close>

lemma MAX_VALUE_ge: "2 ^ 1023 \<le> MAX_VALUE"
  by (simp add: MAX_VALUE_def)

lemma exp_le_193:
  fixes x :: real
  assumes "x \<le> 193"
  shows "exp x \<le> 2 ^ 306"
proof -
  have "exp x \<le> exp (of_nat 193 * (1 :: real))"
    using assms by simp
  also have "\<dots> = exp 1 ^ 193"
    by (rule exp_of_nat_mult)
  also have "\<dots> \<le> 3 ^ 193"
    using exp_le by (intro power_mono) simp_all
  also have "\<dots> \<le> (2 :: real) ^ 306"
    by simp
  finally show ?thesis .
qed

lemma exponent_le_193:
  assumes "1 \<le> n p" and "x \<le> 5"
  shows "x / (n p * 0.026) \<le> 193"
proof (cases "0 \<le> x")
  case True
  have "x / (n p * 0.026) \<le> x / (1 * 0.026)"
    using assms(1) True by (intro divide_left_mono mult_right_mono) simp_all
  also have "\<dots> \<le> 193"
    using assms(2) by simp
  finally show ?thesis .
next
  case False
  then have "x / (n p * 0.026) \<le> 0"
    using assms(1) by (intro divide_nonpos_pos) simp_all
  then show ?thesis by simp
qed

lemma spec_newton_iterate_ge_0:
  assumes "solver_params p" and "0 \<le> V"
  shows "0 \<le> spec_newton_iterate p V k"
proof (rule ccontr)
  assume "\<not> 0 \<le> spec_newton_iterate p V k"
  then have neg: "spec_newton_iterate p V k < 0"
    by simp
  have a: "0 < n p * 0.026" and c: "0 \<le> Is p * Rs p"
    using solver_params_scale [OF assms(1)] by simp_all
  have "spec_newton_iterate p V k / (n p * 0.026) \<le> 0"
    using neg a by (intro divide_nonpos_pos) simp_all
  then have "exp (spec_newton_iterate p V k / (n p * 0.026)) - 1 \<le> 0"
    by simp
  with c have "Is p * Rs p * (exp (spec_newton_iterate p V k / (n p * 0.026)) - 1) \<le> 0"
    by (rule mult_nonneg_nonpos)
  then have "spec_newton_f p V (spec_newton_iterate p V k) < 0"
    using neg assms(2) by (simp add: spec_newton_f_def)
  with spec_newton_iterate_nonneg [OF assms, of k] show False
    by simp
qed

lemma spec_newton_iterate_le_voltage:
  assumes "solver_params p" and "0 \<le> V"
  shows "spec_newton_iterate p V k \<le> V"
  using spec_newton_iterate_antimono [OF assms, of 0 k]
  by (simp add: spec_newton_iterate_def)

lemma forward_current_range:
  assumes "0 < Is p" and "Is p \<le> 1" and "1 \<le> n p" and "0 \<le> x" and "x \<le> 5"
  shows "0 \<le> Is p * (exp (x / (n p * 0.026)) - 1)"
    and "Is p * (exp (x / (n p * 0.026)) - 1) \<le> 2 ^ 306"
proof -
  let ?E = "exp (x / (n p * 0.026))"
  have "0 \<le> x / (n p * 0.026)"
    using assms(3,4) by (intro divide_nonneg_pos) simp_all
  then have E1: "0 \<le> ?E - 1"
    by simp
  have E2: "?E \<le> 2 ^ 306"
    using assms(3,5) by (intro exp_le_193 exponent_le_193)
  show "0 \<le> Is p * (?E - 1)"
    using assms(1) E1 by (intro mult_nonneg_nonneg) simp_all
  have "Is p * (?E - 1) \<le> 1 * (?E - 1)"
    using assms(2) E1 by (rule mult_right_mono)
  then show "Is p * (?E - 1) \<le> 2 ^ 306"
    using E2 by simp
qed

lemma calculateCurrent_range:
  assumes "valid_params p" and "Is p \<le> 1" and "- 5 \<le> voltage" and "voltage \<le> 5"
  shows "\<bar>calculateCurrent voltage p mode\<bar> \<le> 2 ^ 306"
proof -
  have solver: "solver_params p"
    using assms(1) by (rule valid_params_solver)
  have Is: "0 < Is p" and n: "1 \<le> n p" and bv: "breakdownVoltage p < 0"
    using assms(1) by (simp_all add: valid_params_def)
  show ?thesis
  proof (cases "0 \<le> voltage")
    case True
    show ?thesis
    proof (cases mode)
      case IDEAL
      then have "calculateCurrent voltage p mode = Is p * (exp (voltage / (n p * 0.026)) - 1)"
        using True by (simp add: calculateCurrent_def THERMAL_VOLTAGE_VT_def)
      then show ?thesis
        using forward_current_range [OF Is assms(2) n True assms(4)] by simp
    next
      case NON_IDEAL
      let ?Vd = "min (newton_loop voltage p 0 voltage) voltage"
      have "0 \<le> newton_loop voltage p 0 voltage"
        unfolding newton_loop_iterations using solver True by (rule spec_newton_iterate_ge_0)
      then have "0 \<le> ?Vd" and "?Vd \<le> 5"
        using True assms(4) by simp_all
      then have "0 \<le> Is p * (exp (?Vd / (n p * 0.026)) - 1)"
        and "Is p * (exp (?Vd / (n p * 0.026)) - 1) \<le> 2 ^ 306"
        using Is assms(2) n by (simp_all only: forward_current_range)
      then show ?thesis
        unfolding NON_IDEAL calculateCurrent_forward [OF True] by simp
    qed
  next
    case False
    then have neg: "voltage < 0" by simp
    let ?S = "Is p * (exp (voltage / (n p * 0.026)) - 1)"
    have "voltage / (n p * 0.026) \<le> 0"
      using neg n by (intro divide_nonpos_pos) simp_all
    then have "exp (voltage / (n p * 0.026)) - 1 \<le> 0" and "- 1 \<le> exp (voltage / (n p * 0.026)) - 1"
      by simp_all
    then have S: "?S \<le> 0" "- 1 \<le> ?S"
    proof -
      assume le: "exp (voltage / (n p * 0.026)) - 1 \<le> 0"
        and ge: "- 1 \<le> exp (voltage / (n p * 0.026)) - 1"
      show "?S \<le> 0"
        using Is le by (intro mult_nonneg_nonpos) simp_all
      have "Is p * (- 1) \<le> ?S"
        using Is ge by (intro mult_left_mono) simp_all
      then show "- 1 \<le> ?S"
        using assms(2) by simp
    qed
    show ?thesis
    proof (cases mode)
      case IDEAL
      then have "calculateCurrent voltage p mode = - Is p"
        using neg by (simp add: calculateCurrent_def)
      then show ?thesis
        using Is assms(2) by simp
    next
      case NON_IDEAL
      let ?B = "(if voltage \<ge> breakdownVoltage p then 0
                 else - Is p * (exp ((breakdownVoltage p - voltage) * 2) - 1) * 1000)"
      have B: "?B \<le> 0" "- (3 ^ 10 * 1000) \<le> ?B"
      proof -
        have d: "(breakdownVoltage p - voltage) * 2 \<le> of_nat 10 * (1 :: real)"
          using bv assms(3) by simp
        have "exp ((breakdownVoltage p - voltage) * 2) \<le> exp (of_nat 10 * (1 :: real))"
          using d by (simp only: exp_le_cancel_iff)
        also have "\<dots> = exp 1 ^ 10"
          by (rule exp_of_nat_mult)
        also have "\<dots> \<le> 3 ^ 10"
          using exp_le by (intro power_mono) simp_all
        finally have E: "exp ((breakdownVoltage p - voltage) * 2) \<le> 3 ^ 10" .
        have up: "Is p * (exp ((breakdownVoltage p - voltage) * 2) - 1) \<le> 3 ^ 10"
          and lo: "0 \<le> Is p * (exp ((breakdownVoltage p - voltage) * 2) - 1)"
          if below: "\<not> voltage \<ge> breakdownVoltage p"
        proof -
          have E0: "0 \<le> exp ((breakdownVoltage p - voltage) * 2) - 1"
            using below by simp
          have "Is p * (exp ((breakdownVoltage p - voltage) * 2) - 1)
              \<le> 1 * (exp ((breakdownVoltage p - voltage) * 2) - 1)"
            using assms(2) E0 by (rule mult_right_mono)
          also have "\<dots> \<le> 3 ^ 10"
            using E by simp
          finally show "Is p * (exp ((breakdownVoltage p - voltage) * 2) - 1) \<le> 3 ^ 10" .
          show "0 \<le> Is p * (exp ((breakdownVoltage p - voltage) * 2) - 1)"
            using Is E0 by (intro mult_nonneg_nonneg) simp_all
        qed
        show "?B \<le> 0"
          using lo by (simp add: mult_le_0_iff)
        show "- (3 ^ 10 * 1000) \<le> ?B"
          using up by simp
      qed
      have "calculateCurrent voltage p mode = voltage * (1 / 10 ^ 8) + ?S + ?B"
        unfolding NON_IDEAL using neg
        by (simp add: calculateCurrent_def THERMAL_VOLTAGE_VT_def Let_def)
      moreover have "- 1 \<le> voltage * (1 / 10 ^ 8)" and "voltage * (1 / 10 ^ 8) \<le> 0"
        using neg assms(3) by simp_all
      ultimately have "- (3 ^ 10 * 1000) - 2 \<le> calculateCurrent voltage p mode"
        and "calculateCurrent voltage p mode \<le> 0"
        using S B by linarith+
      then show ?thesis
        by simp
    qed
  qed
qed

lemma solver_intermediates_range:
  assumes "valid_params p" and "Is p \<le> 1" and "Rs p \<le> 10 ^ 6"
    and "0 \<le> voltage" and "voltage \<le> 5"
  shows "0 \<le> spec_newton_iterate p voltage k"
    and "spec_newton_iterate p voltage k \<le> voltage"
    and "\<bar>spec_newton_f p voltage (spec_newton_iterate p voltage k)\<bar> \<le> MAX_VALUE"
    and "\<bar>spec_newton_df p (spec_newton_iterate p voltage k)\<bar> \<le> MAX_VALUE"
proof -
  let ?x = "spec_newton_iterate p voltage k"
  let ?E = "exp (?x / (n p * 0.026))"
  have solver: "solver_params p"
    using assms(1) by (rule valid_params_solver)
  have Is: "0 < Is p" and n: "1 \<le> n p" and Rs: "0 \<le> Rs p"
    using assms(1) by (simp_all add: valid_params_def)
  show x0: "0 \<le> ?x"
    using solver assms(4) by (rule spec_newton_iterate_ge_0)
  show xV: "?x \<le> voltage"
    using solver assms(4) by (rule spec_newton_iterate_le_voltage)
  have c0: "0 \<le> Is p * Rs p"
    using Is Rs by simp
  have "Is p * Rs p \<le> 1 * 10 ^ 6"
    using assms(2,3) Is Rs by (intro mult_mono) simp_all
  then have c: "Is p * Rs p \<le> 10 ^ 6"
    by simp
  have "0 \<le> ?x / (n p * 0.026)"
    using x0 n by (intro divide_nonneg_pos) simp_all
  then have E1: "1 \<le> ?E"
    by simp
  have E2: "?E \<le> 2 ^ 306"
    using n xV assms(5) by (intro exp_le_193 exponent_le_193) simp_all
  have "Is p * Rs p * ?E \<le> 10 ^ 6 * 2 ^ 306"
    using c c0 E1 E2 by (intro mult_mono) simp_all
  then have cE: "Is p * Rs p * ?E \<le> 2 ^ 326"
    by simp
  have cE0: "0 \<le> Is p * Rs p * ?E"
    using c0 by (rule mult_nonneg_nonneg) simp
  have f0: "0 \<le> spec_newton_f p voltage ?x"
    using solver assms(4) by (rule spec_newton_iterate_nonneg)
  have "spec_newton_f p voltage ?x = ?x - voltage + Is p * Rs p * ?E - Is p * Rs p"
    by (simp add: spec_newton_f_def algebra_simps)
  then have "spec_newton_f p voltage ?x \<le> 2 ^ 326"
    using xV cE c0 by simp
  then show "\<bar>spec_newton_f p voltage ?x\<bar> \<le> MAX_VALUE"
    using f0 MAX_VALUE_ge by simp
  have "Is p * Rs p * ?E / (n p * 0.026) \<le> Is p * Rs p * ?E / (1 * 0.026)"
    using cE0 n by (intro divide_left_mono mult_right_mono) simp_all
  also have "\<dots> \<le> 2 ^ 326 / (1 * 0.026)"
    using cE by (intro divide_right_mono) simp_all
  also have "\<dots> \<le> 2 ^ 400"
    by simp
  finally have "spec_newton_df p ?x \<le> 1 + 2 ^ 400"
    by (simp add: spec_newton_df_def)
  moreover have "1 \<le> spec_newton_df p ?x"
    using solver by (rule spec_newton_df_pos)
  ultimately show "\<bar>spec_newton_df p ?x\<bar> \<le> MAX_VALUE"
    using MAX_VALUE_ge by simp
qed

lemma curve_points_range:
  assumes "valid_params p" and "Is p \<le> 1" and "j < 101"
  shows "\<bar>point_v (mk_point p mode (- 5 + real j / 10))\<bar> \<le> MAX_VALUE"
    and "\<bar>point_i (mk_point p mode (- 5 + real j / 10))\<bar> \<le> MAX_VALUE"
proof -
  have lo: "- 5 \<le> - 5 + real j / 10" and hi: "- 5 + real j / 10 \<le> 5"
    using assms(3) by simp_all
  then have "\<bar>- 5 + real j / 10\<bar> \<le> 5"
    by simp
  also have "\<dots> \<le> MAX_VALUE"
    using MAX_VALUE_ge by simp
  finally show "\<bar>point_v (mk_point p mode (- 5 + real j / 10))\<bar> \<le> MAX_VALUE"
    by (simp add: mk_point_def)
  have "\<bar>calculateCurrent (- 5 + real j / 10) p mode\<bar> * 1000 \<le> 2 ^ 306 * 1000"
    using calculateCurrent_range [OF assms(1,2) lo hi, of mode] by simp
  also have "\<dots> \<le> (2 :: real) ^ 1023"
    by simp
  finally show "\<bar>point_i (mk_point p mode (- 5 + real j / 10))\<bar> \<le> MAX_VALUE"
    using MAX_VALUE_ge by (simp add: mk_point_def abs_mult)
qed

text \<open>
  C9, as stated, fails: with the Moderate preset the ideal-mode current at 25 V is
  above \<open>Number.MAX_VALUE\<close>, so no double holds it (the code's \<open>Math.exp\<close>
  overflows).
\<close>

theorem ideal_current_exceeds_double_range:
  "valid_params (getDiodeParams MODERATE)
   \<and> MAX_VALUE < \<bar>calculateCurrent 25 (getDiodeParams MODERATE) IDEAL\<bar>"
proof -
  have "271 / 100 \<le> exp (1 :: real)"
    using exp_taylor_bounds(1) [of 1] by simp
  then have "(271 / 100) ^ 8 \<le> exp (1 :: real) ^ 8"
    by (intro power_mono) simp_all
  moreover have "(2 :: real) ^ 11 \<le> (271 / 100) ^ 8"
    by (simp add: power_divide)
  ultimately have "2 ^ 11 \<le> exp (1 :: real) ^ 8"
    by (rule order_trans [rotated])
  also have "\<dots> = exp (of_nat 8 * (1 :: real))"
    by (rule exp_of_nat_mult [symmetric])
  finally have "2 ^ 11 \<le> exp (8 :: real)"
    by simp
  then have "(2 ^ 11) ^ 100 \<le> exp (8 :: real) ^ 100"
    by (intro power_mono) simp_all
  also have "\<dots> = exp (of_nat 100 * (8 :: real))"
    by (rule exp_of_nat_mult [symmetric])
  also have "\<dots> \<le> exp (25 / (1.2 * 0.026))"
    by simp
  finally have big: "2 ^ 1100 \<le> exp (25 / (1.2 * 0.026) :: real)"
    by simp
  have "MAX_VALUE < 1 / 10 ^ 11 * (2 ^ 1100 - 1)"
    by (simp add: MAX_VALUE_def)
  also have "\<dots> \<le> 1 / 10 ^ 11 * (exp (25 / (1.2 * 0.026)) - 1)"
    using big by (intro mult_left_mono) simp_all
  also have "\<dots> = calculateCurrent 25 (getDiodeParams MODERATE) IDEAL"
    by (simp add: calculateCurrent_def getDiodeParams_def THERMAL_VOLTAGE_VT_def)
  finally have "MAX_VALUE < calculateCurrent 25 (getDiodeParams MODERATE) IDEAL" .
  then show ?thesis
    using valid_params_presets [of MODERATE] by simp
qed

text \<open>
  C9, amended. For valid parameters with \<open>Is \<le> 1\<close> and \<open>Rs \<le> 1e6\<close> and a voltage
  from \<open>-5\<close> to \<open>5\<close> (the range of the voltage slider and of the sweep), the
  magnitude of \<open>calculateCurrent\<close> is at most \<open>Number.MAX_VALUE\<close> in both modes; in
  the forward solve every Newton iterate lies between 0 and the voltage, and \<open>f\<close> and
  \<open>df\<close> there are at most \<open>Number.MAX_VALUE\<close> in magnitude; so is
  \<open>calculateDepletionFactor\<close> at every voltage; and \<open>generateCurveData\<close> returns
  series whose voltages and currents are all at most \<open>Number.MAX_VALUE\<close> in magnitude.
\<close>

theorem outputs_within_double_range:
  assumes "valid_params p" and "Is p \<le> 1" and "Rs p \<le> 10 ^ 6"
    and "- 5 \<le> voltage" and "voltage \<le> 5"
  shows "\<bar>calculateCurrent voltage p mode\<bar> \<le> MAX_VALUE
         \<and> (0 \<le> voltage \<longrightarrow>
               0 \<le> spec_newton_iterate p voltage k
               \<and> spec_newton_iterate p voltage k \<le> voltage
               \<and> \<bar>spec_newton_f p voltage (spec_newton_iterate p voltage k)\<bar> \<le> MAX_VALUE
               \<and> \<bar>spec_newton_df p (spec_newton_iterate p voltage k)\<bar> \<le> MAX_VALUE)
         \<and> \<bar>calculateDepletionFactor u (Vbi p)\<bar> \<le> MAX_VALUE
         \<and> (\<exists>idealPoints nonIdealPoints.
               generateCurveData p = Some (idealPoints, nonIdealPoints)
               \<and> list_all (\<lambda>pt. \<bar>point_v pt\<bar> \<le> MAX_VALUE \<and> \<bar>point_i pt\<bar> \<le> MAX_VALUE)
                     (idealPoints @ nonIdealPoints))"
proof (intro conjI impI)
  have "\<bar>calculateCurrent voltage p mode\<bar> \<le> 2 ^ 306"
    using assms(1,2,4,5) by (rule calculateCurrent_range)
  also have "\<dots> \<le> MAX_VALUE"
    using MAX_VALUE_ge by simp
  finally show "\<bar>calculateCurrent voltage p mode\<bar> \<le> MAX_VALUE" .
next
  assume "0 \<le> voltage"
  then show "0 \<le> spec_newton_iterate p voltage k"
    and "spec_newton_iterate p voltage k \<le> voltage"
    and "\<bar>spec_newton_f p voltage (spec_newton_iterate p voltage k)\<bar> \<le> MAX_VALUE"
    and "\<bar>spec_newton_df p (spec_newton_iterate p voltage k)\<bar> \<le> MAX_VALUE"
    using assms(1,2,3,5) by (simp_all only: solver_intermediates_range)
next
  have "0.1 \<le> calculateDepletionFactor u (Vbi p)"
    and "calculateDepletionFactor u (Vbi p) \<le> 3.0"
    by (simp_all add: calculateDepletionFactor_def Let_def)
  then have "\<bar>calculateDepletionFactor u (Vbi p)\<bar> \<le> 3"
    by simp
  also have "\<dots> \<le> MAX_VALUE"
    using MAX_VALUE_ge by simp
  finally show "\<bar>calculateDepletionFactor u (Vbi p)\<bar> \<le> MAX_VALUE" .
next
  let ?ideal = "map (\<lambda>j. mk_point p IDEAL (- 5 + real j / 10)) [0..<101]"
  let ?nonideal = "map (\<lambda>j. mk_point p NON_IDEAL (- 5 + real j / 10)) [0..<101]"
  have "list_all (\<lambda>pt. \<bar>point_v pt\<bar> \<le> MAX_VALUE \<and> \<bar>point_i pt\<bar> \<le> MAX_VALUE)
      (?ideal @ ?nonideal)"
    using curve_points_range [OF assms(1,2)] by (auto simp add: list_all_iff)
  with generateCurveData_eq [of p]
  show "\<exists>idealPoints nonIdealPoints.
      generateCurveData p = Some (idealPoints, nonIdealPoints)
      \<and> list_all (\<lambda>pt. \<bar>point_v pt\<bar> \<le> MAX_VALUE \<and> \<bar>point_i pt\<bar> \<le> MAX_VALUE)
            (idealPoints @ nonIdealPoints)"
    by blast
qed

theorem outputs_within_double_range_witness:
  "valid_params (getDiodeParams MODERATE) \<and> Is (getDiodeParams MODERATE) \<le> 1
   \<and> Rs (getDiodeParams MODERATE) \<le> 10 ^ 6 \<and> (- 5 :: real) \<le> 5 \<and> (0 :: real) \<le> 5
   \<and> \<bar>calculateCurrent 5 (getDiodeParams MODERATE) NON_IDEAL\<bar> \<le> MAX_VALUE
   \<and> spec_newton_iterate (getDiodeParams MODERATE) 5 10 \<le> 5
   \<and> \<bar>spec_newton_df (getDiodeParams MODERATE)
         (spec_newton_iterate (getDiodeParams MODERATE) 5 10)\<bar> \<le> MAX_VALUE"
proof -
  have params: "valid_params (getDiodeParams MODERATE)" "Is (getDiodeParams MODERATE) \<le> 1"
    "Rs (getDiodeParams MODERATE) \<le> 10 ^ 6"
    by (simp_all add: valid_params_presets, simp_all add: getDiodeParams_def)
  show ?thesis
    using outputs_within_double_range [OF params, of 5 NON_IDEAL 10] params by simp
qed

end
